theory Spec2Isabelle
  imports Main "HOL-Library.AList"
begin

section \<open>Partition gap checker (missing\_date.py)\<close>

text \<open>
  The development follows \<^verbatim>\<open>src/missing_date.py\<close>: the class \<^verbatim>\<open>PartitionChecker\<close>
  (construction, gap search, grouping, SQL synthesis), the text parser
  \<^verbatim>\<open>parse_result_file\<close> and the exit status of \<^verbatim>\<open>main\<close>.

  Python's library types are modelled as follows.
  \<^item> A \<^verbatim>\<open>str\<close> is a \<open>string\<close>; the characters are read as ASCII code points.
  \<^item> An \<^verbatim>\<open>int\<close> is an \<open>int\<close>.
  \<^item> A naive \<^verbatim>\<open>datetime\<close> with whole seconds is the integer
    \<open>toordinal * 86400 + second of the day\<close>, where \<open>toordinal\<close> is Python's proleptic
    Gregorian day number (0001-01-01 is day 1). Every datetime of the program comes from
    \<^verbatim>\<open>strptime\<close> with a format that has no fraction and is moved by whole days only.
  \<^item> A \<^verbatim>\<open>timedelta\<close> is its length in seconds.
  \<^item> An exception is a value of \<open>error\<close>; a function that may raise returns \<open>error + 'a\<close>.
\<close>

subsection \<open>Exceptions\<close>

datatype error = ValueError | IndexError | OverflowError

definition err_bind :: "error + 'a \<Rightarrow> ('a \<Rightarrow> error + 'b) \<Rightarrow> error + 'b" where
  "err_bind x f = (case x of Inl e \<Rightarrow> Inl e | Inr v \<Rightarrow> f v)"

subsection \<open>Strings: the methods of \<^verbatim>\<open>str\<close> the program calls\<close>

definition NL :: string where
  "NL = [CHR 0x0A]"

text \<open>\<^verbatim>\<open>str.isspace\<close> on ASCII: tab, line feed, vertical tab, form feed, carriage return,
  the four separators 0x1C..0x1F and the space.\<close>

definition py_isspace :: "char \<Rightarrow> bool" where
  "py_isspace c \<longleftrightarrow>
     c \<in> set [CHR 0x09, CHR 0x0A, CHR 0x0B, CHR 0x0C, CHR 0x0D,
               CHR 0x1C, CHR 0x1D, CHR 0x1E, CHR 0x1F, CHR 0x20]"

definition py_strip :: "string \<Rightarrow> string" where
  "py_strip s = rev (dropWhile py_isspace (rev (dropWhile py_isspace s)))"

text \<open>\<^verbatim>\<open>str.split()\<close> with no separator: the maximal runs of non-whitespace characters.\<close>

fun split_loop :: "string \<Rightarrow> string \<Rightarrow> string list" where
  "split_loop [] tok = (if tok = [] then [] else [tok])"
| "split_loop (c # cs) tok =
     (if py_isspace c then (if tok = [] then split_loop cs [] else tok # split_loop cs [])
      else split_loop cs (tok @ [c]))"

definition py_split :: "string \<Rightarrow> string list" where
  "py_split s = split_loop s []"

text \<open>\<^verbatim>\<open>str.lower\<close> on ASCII: the capital letters A..Z are mapped to a..z.\<close>

definition lower_char :: "char \<Rightarrow> char" where
  "lower_char c =
     (case map_of (zip ''ABCDEFGHIJKLMNOPQRSTUVWXYZ'' ''abcdefghijklmnopqrstuvwxyz'') c of
        None \<Rightarrow> c | Some l \<Rightarrow> l)"

definition py_lower :: "string \<Rightarrow> string" where
  "py_lower s = map lower_char s"

definition startswith :: "string \<Rightarrow> string \<Rightarrow> bool" where
  "startswith s pre \<longleftrightarrow> take (length pre) s = pre"

text \<open>The operator \<^verbatim>\<open>sub in s\<close>.\<close>

fun py_in :: "string \<Rightarrow> string \<Rightarrow> bool" where
  "py_in sub [] = (sub = [])"
| "py_in sub (c # cs) = (startswith (c # cs) sub \<or> py_in sub cs)"

text \<open>\<^verbatim>\<open>sep.join(xs)\<close>.\<close>

fun py_join :: "string \<Rightarrow> string list \<Rightarrow> string" where
  "py_join sep [] = []"
| "py_join sep [x] = x"
| "py_join sep (x # y # ys) = x @ sep @ py_join sep (y # ys)"

definition is_digit :: "char \<Rightarrow> bool" where
  "is_digit c \<longleftrightarrow> c \<in> set ''0123456789''"

definition digit_val :: "char \<Rightarrow> nat" where
  "digit_val c = length (takeWhile (\<lambda>d. d \<noteq> c) ''0123456789'')"

definition nat_of_digits :: "string \<Rightarrow> nat" where
  "nat_of_digits s = foldl (\<lambda>n c. 10 * n + digit_val c) 0 s"

definition digit_char :: "nat \<Rightarrow> char" where
  "digit_char n = ''0123456789'' ! n"

text \<open>\<^verbatim>\<open>str(n)\<close> of an integer, as an f-string writes it.\<close>

fun str_nat :: "nat \<Rightarrow> string" where
  "str_nat n = (if n < 10 then [digit_char n] else str_nat (n div 10) @ [digit_char (n mod 10)])"

declare str_nat.simps [simp del]

definition str_int :: "int \<Rightarrow> string" where
  "str_int i = (if i < 0 then CHR ''-'' # str_nat (nat (- i)) else str_nat (nat i))"

definition zfill :: "nat \<Rightarrow> string \<Rightarrow> string" where
  "zfill w s = replicate (w - length s) (CHR ''0'') @ s"

text \<open>
  \<^verbatim>\<open>int(s)\<close> in base 10: surrounding whitespace is stripped, one sign is allowed, and the
  digits may be grouped by single underscores. Anything else raises \<^verbatim>\<open>ValueError\<close>.
  (The configurable limit on the number of digits is left out.)
\<close>

fun int_body_ok :: "string \<Rightarrow> bool" where
  "int_body_ok [] = False"
| "int_body_ok [c] = is_digit c"
| "int_body_ok (c # d # cs) =
     (is_digit c \<and> (if d = CHR ''_'' then int_body_ok cs else int_body_ok (d # cs)))"

definition py_int :: "string \<Rightarrow> error + int" where
  "py_int s =
     (let t = py_strip s;
          neg = (case t of [] \<Rightarrow> False | c # _ \<Rightarrow> c = CHR ''-'');
          body = (case t of [] \<Rightarrow> [] | c # r \<Rightarrow> if c = CHR ''-'' \<or> c = CHR ''+'' then r else t)
      in if int_body_ok body
         then Inr ((if neg then - 1 else 1) * int (nat_of_digits (filter is_digit body)))
         else Inl ValueError)"

subsection \<open>datetime and timedelta\<close>

type_synonym datetime = int
type_synonym timedelta = int

definition timedelta_days :: "int \<Rightarrow> timedelta" where
  "timedelta_days n = n * 86400"

definition MAXORDINAL :: int where
  "MAXORDINAL = 3652059"

definition toordinal :: "datetime \<Rightarrow> int" where
  "toordinal d = d div 86400"

text \<open>
  \<^verbatim>\<open>datetime.__add__\<close>: the sum is computed on the day number and raises
  \<^verbatim>\<open>OverflowError("date value out of range")\<close> unless \<^verbatim>\<open>0 < days <= _MAXORDINAL\<close>.
\<close>

definition datetime_add :: "datetime \<Rightarrow> timedelta \<Rightarrow> error + datetime" where
  "datetime_add d td =
     (let r = d + td
      in if 0 < toordinal r \<and> toordinal r \<le> MAXORDINAL then Inr r else Inl OverflowError)"

text \<open>\<^verbatim>\<open>datetime.__sub__\<close> of two naive datetimes: the timedelta between them.\<close>

definition datetime_sub :: "datetime \<Rightarrow> datetime \<Rightarrow> timedelta" where
  "datetime_sub a b = a - b"

definition valid_datetime :: "datetime \<Rightarrow> bool" where
  "valid_datetime d \<longleftrightarrow> 1 \<le> toordinal d \<and> toordinal d \<le> MAXORDINAL"

subsection \<open>The calendar: \<^verbatim>\<open>_ymd2ord\<close> and \<^verbatim>\<open>_ord2ymd\<close> of datetime.py\<close>

definition is_leap :: "nat \<Rightarrow> bool" where
  "is_leap y \<longleftrightarrow> y mod 4 = 0 \<and> (y mod 100 \<noteq> 0 \<or> y mod 400 = 0)"

definition DAYS_IN_MONTH :: "nat list" where
  "DAYS_IN_MONTH = [0, 31, 28, 31, 30, 31, 30, 31, 31, 30, 31, 30, 31]"

definition DAYS_BEFORE_MONTH :: "nat list" where
  "DAYS_BEFORE_MONTH = [0, 0, 31, 59, 90, 120, 151, 181, 212, 243, 273, 304, 334]"

definition days_in_month :: "nat \<Rightarrow> nat \<Rightarrow> nat" where
  "days_in_month y m = (if m = 2 \<and> is_leap y then 29 else DAYS_IN_MONTH ! m)"

definition days_before_year :: "nat \<Rightarrow> nat" where
  "days_before_year year = (let y = year - 1 in y * 365 + y div 4 - y div 100 + y div 400)"

definition days_before_month :: "nat \<Rightarrow> nat \<Rightarrow> nat" where
  "days_before_month y m = DAYS_BEFORE_MONTH ! m + (if m > 2 \<and> is_leap y then 1 else 0)"

definition ymd2ord :: "nat \<Rightarrow> nat \<Rightarrow> nat \<Rightarrow> int" where
  "ymd2ord y m d = int (days_before_year y + days_before_month y m + d)"

definition ord2ymd :: "int \<Rightarrow> nat \<times> nat \<times> nat" where
  "ord2ymd ordinal =
     (let n = ordinal - 1;
          n400 = n div 146097; n = n mod 146097;
          year = n400 * 400 + 1;
          n100 = n div 36524; n = n mod 36524;
          n4 = n div 1461; n = n mod 1461;
          n1 = n div 365; n = n mod 365;
          year = year + n100 * 100 + n4 * 4 + n1
      in if n1 = 4 \<or> n100 = 4 then (nat (year - 1), 12, 31)
         else
           (let leapyear = (n1 = 3 \<and> (n4 \<noteq> 24 \<or> n100 = 3));
                month = nat ((n + 50) div 32);
                preceding = int (DAYS_BEFORE_MONTH ! month) + (if month > 2 \<and> leapyear then 1 else 0)
            in if preceding > n
               then (let month = month - 1;
                         preceding = preceding
                           - (int (DAYS_IN_MONTH ! month) + (if month = 2 \<and> leapyear then 1 else 0))
                     in (nat year, month, nat (n - preceding + 1)))
               else (nat year, month, nat (n - preceding + 1))))"

text \<open>\<^verbatim>\<open>datetime.combine\<close> of a day number and a time of day.\<close>

definition combine :: "int \<Rightarrow> nat \<Rightarrow> nat \<Rightarrow> nat \<Rightarrow> datetime" where
  "combine ordinal hh mm ss = ordinal * 86400 + int (hh * 3600 + mm * 60 + ss)"

text \<open>The constructor \<^verbatim>\<open>datetime(year, month, day, hour, minute, second)\<close> with its range checks.\<close>

definition datetime_new :: "nat \<Rightarrow> nat \<Rightarrow> nat \<Rightarrow> nat \<Rightarrow> nat \<Rightarrow> nat \<Rightarrow> error + datetime" where
  "datetime_new y m d hh mm ss =
     (if 1 \<le> y \<and> y \<le> 9999 \<and> 1 \<le> m \<and> m \<le> 12 \<and> 1 \<le> d \<and> d \<le> days_in_month y m
         \<and> hh \<le> 23 \<and> mm \<le> 59 \<and> ss \<le> 59
      then Inr (combine (ymd2ord y m d) hh mm ss)
      else Inl ValueError)"

text \<open>Midnight of a calendar day, for writing dates down.\<close>

definition midnight :: "nat \<Rightarrow> nat \<Rightarrow> nat \<Rightarrow> datetime" where
  "midnight y m d = combine (ymd2ord y m d) 0 0 0"

subsection \<open>\<^verbatim>\<open>datetime.strptime(s, "%Y-%m-%d %H:%M:%S")\<close>\<close>

text \<open>
  \<^verbatim>\<open>_strptime\<close> turns the format into the regular expression
  \<^verbatim>\<open>(\d\d\d\d)-(1[0-2]|0[1-9]|[1-9])-(3[0-1]|[1-2]\d|0[1-9]|[1-9]| [1-9])\s+\<close>
  \<^verbatim>\<open>(2[0-3]|[0-1]\d|\d):([0-5]\d|\d):(6[0-1]|[0-5]\d|\d)\<close>,
  matches it at the start of the string, raises \<^verbatim>\<open>ValueError\<close> when there is no match or when
  text remains after the match, and passes the six numbers to the constructor. A piece of
  the expression is modelled by the list of its matches at the start of a string, in the
  order a backtracking matcher tries them: the number read and the rest of the string.
\<close>

type_synonym 'a rx = "string \<Rightarrow> ('a \<times> string) list"

text \<open>A character class \<^verbatim>\<open>[...]\<close>, given by its characters.\<close>

definition one_of :: "string \<Rightarrow> char \<Rightarrow> bool" where
  "one_of cls c \<longleftrightarrow> c \<in> set cls"

definition rx_two :: "(char \<Rightarrow> bool) \<Rightarrow> (char \<Rightarrow> bool) \<Rightarrow> nat rx" where
  "rx_two p q s =
     (case s of a # b # r \<Rightarrow> if p a \<and> q b then [(nat_of_digits (filter is_digit [a, b]), r)] else []
      | _ \<Rightarrow> [])"

definition rx_one :: "(char \<Rightarrow> bool) \<Rightarrow> nat rx" where
  "rx_one p s = (case s of a # r \<Rightarrow> if p a then [(digit_val a, r)] else [] | _ \<Rightarrow> [])"

definition rx_lit :: "char \<Rightarrow> unit rx" where
  "rx_lit c s = (case s of a # r \<Rightarrow> if a = c then [((), r)] else [] | _ \<Rightarrow> [])"

text \<open>\<^verbatim>\<open>\s+\<close> is greedy: the longest run first, then shorter ones, down to one character.\<close>

definition rx_spaces :: "unit rx" where
  "rx_spaces s = map (\<lambda>k. ((), drop k s)) (rev [1 ..< Suc (length (takeWhile py_isspace s))])"

definition rx_Y :: "nat rx" where
  "rx_Y s = (if 4 \<le> length s \<and> list_all is_digit (take 4 s)
             then [(nat_of_digits (take 4 s), drop 4 s)] else [])"

definition rx_m :: "nat rx" where
  "rx_m s = rx_two (one_of ''1'') (one_of ''012'') s
          @ rx_two (one_of ''0'') (one_of ''123456789'') s
          @ rx_one (one_of ''123456789'') s"

definition rx_d :: "nat rx" where
  "rx_d s = rx_two (one_of ''3'') (one_of ''01'') s
          @ rx_two (one_of ''12'') is_digit s
          @ rx_two (one_of ''0'') (one_of ''123456789'') s
          @ rx_one (one_of ''123456789'') s
          @ rx_two (one_of '' '') (one_of ''123456789'') s"

definition rx_H :: "nat rx" where
  "rx_H s = rx_two (one_of ''2'') (one_of ''0123'') s
          @ rx_two (one_of ''01'') is_digit s
          @ rx_one is_digit s"

definition rx_M :: "nat rx" where
  "rx_M s = rx_two (one_of ''012345'') is_digit s @ rx_one is_digit s"

definition rx_S :: "nat rx" where
  "rx_S s = rx_two (one_of ''6'') (one_of ''01'') s
          @ rx_two (one_of ''012345'') is_digit s
          @ rx_one is_digit s"

definition format_matches :: "string \<Rightarrow> ((nat \<times> nat \<times> nat \<times> nat \<times> nat \<times> nat) \<times> string) list" where
  "format_matches s =
     [((y, m, d, hh, mm, ss), s11).
        (y, s1) \<leftarrow> rx_Y s, (u1, s2) \<leftarrow> rx_lit CHR ''-'' s1,
        (m, s3) \<leftarrow> rx_m s2, (u2, s4) \<leftarrow> rx_lit CHR ''-'' s3,
        (d, s5) \<leftarrow> rx_d s4, (u3, s6) \<leftarrow> rx_spaces s5,
        (hh, s7) \<leftarrow> rx_H s6, (u4, s8) \<leftarrow> rx_lit CHR '':'' s7,
        (mm, s9) \<leftarrow> rx_M s8, (u5, s10) \<leftarrow> rx_lit CHR '':'' s9,
        (ss, s11) \<leftarrow> rx_S s10]"

definition strptime :: "string \<Rightarrow> error + datetime" where
  "strptime s =
     (case format_matches s of
        [] \<Rightarrow> Inl ValueError
      | ((y, m, d, hh, mm, ss), rest) # _ \<Rightarrow>
          if rest \<noteq> [] then Inl ValueError else datetime_new y m d hh mm ss)"

text \<open>
  \<^verbatim>\<open>date.strftime('%Y%m%d')\<close> hands the format to the \<^verbatim>\<open>strftime\<close> of the C library. The
  GNU C library writes \<^verbatim>\<open>%Y\<close> as the year in decimal without padding (the year 999 is
  \<^verbatim>\<open>999\<close>), and \<^verbatim>\<open>%m\<close> and \<^verbatim>\<open>%d\<close> on two digits. The fields of the date are those of its
  day number.
\<close>

definition strftime_Ymd :: "datetime \<Rightarrow> string" where
  "strftime_Ymd dt =
     (case ord2ymd (toordinal dt) of
        (y, m, d) \<Rightarrow> str_nat y @ zfill 2 (str_nat m) @ zfill 2 (str_nat d))"

subsection \<open>\<^verbatim>\<open>PartitionChecker.group_consecutive_dates\<close>\<close>

text \<open>
  The loop \<^verbatim>\<open>for i in range(1, len(dates))\<close> runs over the dates after the first;
  \<open>current_group\<close> is never empty (it starts as \<^verbatim>\<open>[dates[0]]\<close> and is only extended or
  reset to a singleton), so \<^verbatim>\<open>current_group[-1]\<close> is its last element.
\<close>

fun group_loop :: "datetime list \<Rightarrow> datetime list \<Rightarrow> datetime list list \<Rightarrow> datetime list list" where
  "group_loop [] current_group groups = groups @ [current_group]"
| "group_loop (d # ds) current_group groups =
     (if datetime_sub d (last current_group) = timedelta_days 1
      then group_loop ds (current_group @ [d]) groups
      else group_loop ds [d] (groups @ [current_group]))"

definition group_consecutive_dates :: "datetime list \<Rightarrow> datetime list list" where
  "group_consecutive_dates dates =
     (case dates of [] \<Rightarrow> [] | d0 # ds \<Rightarrow> group_loop ds [d0] [])"

subsection \<open>\<^verbatim>\<open>PartitionChecker.__init__\<close>\<close>

text \<open>
  A row of \<^verbatim>\<open>partition_data\<close> is a tuple of strings of any length; \<^verbatim>\<open>row[i]\<close> raises
  \<^verbatim>\<open>IndexError\<close> past its end. A partition is the dict with the keys \<^verbatim>\<open>date\<close>,
  \<^verbatim>\<open>unix_ts\<close>, \<^verbatim>\<open>ordinal\<close> and \<^verbatim>\<open>rows\<close>.
\<close>

type_synonym row = "string list"

record partition =
  date :: datetime
  unix_ts :: int
  ordinal :: int
  rows :: int

record PartitionChecker =
  table_name :: string
  partitions :: "partition list"

definition row_get :: "row \<Rightarrow> nat \<Rightarrow> error + string" where
  "row_get r i = (if i < length r then Inr (r ! i) else Inl IndexError)"

text \<open>The dict display of the loop body; its four values are evaluated in the order written.\<close>

definition make_partition :: "row \<Rightarrow> error + partition" where
  "make_partition r =
     err_bind (row_get r 0) (\<lambda>s0. err_bind (strptime s0) (\<lambda>dt.
     err_bind (row_get r 1) (\<lambda>s1. err_bind (py_int s1) (\<lambda>ts.
     err_bind (row_get r 2) (\<lambda>s2. err_bind (py_int s2) (\<lambda>ord.
     err_bind (row_get r 3) (\<lambda>s3. err_bind (py_int s3) (\<lambda>rws.
       Inr \<lparr>date = dt, unix_ts = ts, ordinal = ord, rows = rws\<rparr>))))))))"

text \<open>
  The loop over the rows. \<^verbatim>\<open>except (ValueError, IndexError)\<close> prints a warning and goes on
  to the next row; any other exception leaves the constructor. The second accumulator
  holds the rows a warning was printed for.
\<close>

fun init_loop :: "row list \<Rightarrow> partition list \<Rightarrow> row list \<Rightarrow> error + partition list \<times> row list" where
  "init_loop [] ps warned = Inr (ps, warned)"
| "init_loop (r # rs) ps warned =
     (case make_partition r of
        Inr p \<Rightarrow> init_loop rs (ps @ [p]) warned
      | Inl e \<Rightarrow> if e = ValueError \<or> e = IndexError then init_loop rs ps (warned @ [r])
                 else Inl e)"

text \<open>
  \<^verbatim>\<open>list.sort(key=...)\<close> is a stable sort, and so is \<open>sort_key\<close>; a stable sort of a
  list by a key has one result.
\<close>

definition PartitionChecker_init :: "string \<Rightarrow> row list \<Rightarrow> error + PartitionChecker \<times> row list" where
  "PartitionChecker_init name partition_data =
     (case init_loop partition_data [] [] of
        Inl e \<Rightarrow> Inl e
      | Inr (ps, warned) \<Rightarrow> Inr (\<lparr>table_name = name, partitions = sort_key date ps\<rparr>, warned))"

subsection \<open>\<^verbatim>\<open>PartitionChecker.find_missing_dates\<close>\<close>

text \<open>The inner \<^verbatim>\<open>while expected_next < next_date\<close> loop.\<close>

function while_expected :: "datetime \<Rightarrow> datetime \<Rightarrow> datetime list \<Rightarrow> error + datetime list" where
  "while_expected expected_next next_date missing_dates =
     (if expected_next < next_date
      then (case datetime_add expected_next (timedelta_days 1) of
              Inl e \<Rightarrow> Inl e
            | Inr expected_next' \<Rightarrow>
                while_expected expected_next' next_date (missing_dates @ [expected_next]))
      else Inr missing_dates)"
  by pat_completeness auto
termination
  by (relation "measure (\<lambda>(e, n, m). nat (n - e))")
     (auto simp: datetime_add_def timedelta_days_def Let_def split: if_splits)

declare while_expected.simps [simp del]

text \<open>The outer \<^verbatim>\<open>for i in range(len(self.partitions) - 1)\<close> loop, on the records from
  position \<open>i\<close> on.\<close>

fun for_pairs :: "partition list \<Rightarrow> datetime list \<Rightarrow> error + datetime list" where
  "for_pairs (p # q # ps) missing_dates =
     (case datetime_add (date p) (timedelta_days 1) of
        Inl e \<Rightarrow> Inl e
      | Inr expected_next \<Rightarrow>
          (case while_expected expected_next (date q) missing_dates of
             Inl e \<Rightarrow> Inl e
           | Inr missing_dates' \<Rightarrow> for_pairs (q # ps) missing_dates'))"
| "for_pairs ps missing_dates = Inr missing_dates"

definition find_missing_dates :: "PartitionChecker \<Rightarrow> error + datetime list" where
  "find_missing_dates self =
     (if length (partitions self) < 2 then Inr [] else for_pairs (partitions self) [])"

subsection \<open>\<^verbatim>\<open>generate_partition_name\<close> and \<^verbatim>\<open>create_reorganize_command\<close>\<close>

definition generate_partition_name :: "datetime \<Rightarrow> string" where
  "generate_partition_name d = ''p'' @ strftime_Ymd d"

text \<open>
  \<^verbatim>\<open>int(missing_date.timestamp())\<close> reads the naive datetime in the local time zone of the
  machine; the conversion is the parameter \<open>timestamp\<close> of the model.
\<close>

fun missing_loop :: "(datetime \<Rightarrow> int) \<Rightarrow> datetime list \<Rightarrow> string list \<Rightarrow> string list" where
  "missing_loop timestamp [] all_partitions = all_partitions"
| "missing_loop timestamp (missing_date # ds) all_partitions =
     (let part_name = generate_partition_name missing_date;
          unix_ts = timestamp missing_date
      in missing_loop timestamp ds
           (all_partitions @
            [''  PARTITION '' @ part_name @ '' VALUES LESS THAN ('' @ str_int unix_ts
               @ '') ENGINE = InnoDB'']))"

definition create_reorganize_command ::
    "(datetime \<Rightarrow> int) \<Rightarrow> PartitionChecker \<Rightarrow> partition \<Rightarrow> partition \<Rightarrow> datetime list \<Rightarrow> string" where
  "create_reorganize_command timestamp self before_part after_part missing_dates =
     (let partition_name_after = generate_partition_name (date after_part);
          cmd = ''ALTER TABLE '' @ table_name self @ NL;
          cmd = cmd @ ''REORGANIZE PARTITION '' @ partition_name_after @ '' INTO ('' @ NL;
          all_partitions = missing_loop timestamp missing_dates [];
          part_name = generate_partition_name (date after_part);
          all_partitions = all_partitions @
            [''  PARTITION '' @ part_name @ '' VALUES LESS THAN ('' @ str_int (unix_ts after_part)
               @ '') ENGINE = InnoDB''];
          cmd = cmd @ py_join ('','' @ NL) all_partitions;
          cmd = cmd @ NL @ '');''
      in cmd)"

subsection \<open>\<^verbatim>\<open>PartitionChecker.generate_reorganize_commands\<close>\<close>

text \<open>The scan \<^verbatim>\<open>for p in self.partitions\<close> with its \<^verbatim>\<open>break\<close>.\<close>

fun scan_partitions ::
    "partition list \<Rightarrow> datetime \<Rightarrow> datetime \<Rightarrow> partition option \<Rightarrow> partition option
      \<Rightarrow> partition option \<times> partition option" where
  "scan_partitions [] start_date end_date before_partition after_partition =
     (before_partition, after_partition)"
| "scan_partitions (p # ps) start_date end_date before_partition after_partition =
     (if date p < start_date
      then scan_partitions ps start_date end_date (Some p) after_partition
      else if date p > end_date \<and> after_partition = None
      then (before_partition, Some p)
      else scan_partitions ps start_date end_date before_partition after_partition)"

text \<open>The loop over the groups; \<^verbatim>\<open>group[0]\<close> and \<^verbatim>\<open>group[-1]\<close> raise \<^verbatim>\<open>IndexError\<close> on
  an empty group.\<close>

fun for_groups ::
    "(datetime \<Rightarrow> int) \<Rightarrow> PartitionChecker \<Rightarrow> datetime list list \<Rightarrow> string list \<Rightarrow> error + string list" where
  "for_groups timestamp self [] commands = Inr commands"
| "for_groups timestamp self (grp # groups) commands =
     (if grp = [] then Inl IndexError
      else
        (let start_date = hd grp;
             end_date = last grp
         in case scan_partitions (partitions self) start_date end_date None None of
              (Some before_partition, Some after_partition) \<Rightarrow>
                for_groups timestamp self groups
                  (commands @
                   [create_reorganize_command timestamp self before_partition after_partition grp])
            | _ \<Rightarrow> for_groups timestamp self groups commands))"

definition generate_reorganize_commands ::
    "(datetime \<Rightarrow> int) \<Rightarrow> PartitionChecker \<Rightarrow> datetime list \<Rightarrow> error + string list" where
  "generate_reorganize_commands timestamp self missing_dates =
     (if missing_dates = [] then Inr []
      else for_groups timestamp self (group_consecutive_dates missing_dates) [])"

subsection \<open>\<^verbatim>\<open>PartitionChecker.display_report\<close>\<close>


subsection \<open>\<^verbatim>\<open>parse_result_file\<close>\<close>

text \<open>
  The dict \<^verbatim>\<open>tables_data\<close> is an association list in insertion order: assigning to a key
  that is present replaces its value in place, assigning to a new key appends it, which is
  \<open>AList.update\<close>. A data tuple \<^verbatim>\<open>(date_str, unix_ts, ordinal, rows)\<close> is the row of its
  four strings. The state of the scan is the dict, \<^verbatim>\<open>current_table\<close> and
  \<^verbatim>\<open>current_data\<close>.
\<close>

type_synonym tables = "(string \<times> row list) list"

record parse_state =
  tables_data :: tables
  current_table :: "string option"
  current_data :: "row list"

definition initial_state :: parse_state where
  "initial_state = \<lparr>tables_data = [], current_table = None, current_data = []\<rparr>"

text \<open>\<^verbatim>\<open>re.match(r"\d{4}-\d{2}-\d{2}", line)\<close>.\<close>

definition match_date :: "string \<Rightarrow> bool" where
  "match_date s \<longleftrightarrow>
     10 \<le> length s \<and> list_all is_digit (take 4 s) \<and> s ! 4 = CHR ''-''
     \<and> list_all is_digit (take 2 (drop 5 s)) \<and> s ! 7 = CHR ''-''
     \<and> list_all is_digit (take 2 (drop 8 s))"

text \<open>\<^verbatim>\<open>"from_unixtime" in line.lower() or "partition_description" in line.lower()\<close>.\<close>

definition is_header :: "string \<Rightarrow> bool" where
  "is_header line \<longleftrightarrow>
     py_in ''from_unixtime'' (py_lower line) \<or> py_in ''partition_description'' (py_lower line)"

text \<open>The block \<^verbatim>\<open>if current_table and current_data:\<close> inside the loop; a string and a list
  are true when they are not empty.\<close>

definition save_previous :: "parse_state \<Rightarrow> parse_state" where
  "save_previous st =
     (case current_table st of
        None \<Rightarrow> st
      | Some t \<Rightarrow>
          if t \<noteq> [] \<and> current_data st \<noteq> []
          then st\<lparr>tables_data := AList.update t (current_data st) (tables_data st),
                    current_data := []\<rparr>
          else st)"

text \<open>The data-line branch: \<^verbatim>\<open>parts = line.split()\<close> and the append to \<^verbatim>\<open>current_data\<close>.\<close>

definition data_line :: "string \<Rightarrow> parse_state \<Rightarrow> parse_state" where
  "data_line line st =
     (let parts = py_split line
      in if length parts \<ge> 4
         then (let date_str = parts ! 0 @ '' '' @ parts ! 1;
                   unix_ts = parts ! 2;
                   ordinal = parts ! 3;
                   rows = (if length parts > 4 then parts ! 4 else ''0'')
               in st\<lparr>current_data := current_data st @ [[date_str, unix_ts, ordinal, rows]]\<rparr>)
         else st)"

text \<open>
  The loop \<^verbatim>\<open>while i < len(lines)\<close>, on the lines from position \<open>i\<close> on: \<open>raw\<close> is
  \<^verbatim>\<open>lines[i]\<close>, and after a table name the line \<^verbatim>\<open>lines[i + 1]\<close> is looked at before
  the next round.
\<close>

fun parse_lines :: "string list \<Rightarrow> parse_state \<Rightarrow> parse_state" where
  "parse_lines [] st = st"
| "parse_lines (raw # rest) st =
     (let line = py_strip raw
      in if line = [] then parse_lines rest st
         else if \<not> startswith line '' '' \<and> \<not> match_date line
         then (let st = save_previous st
               in if is_header line then parse_lines rest st
                  else (let st = st\<lparr>current_table := Some line\<rparr>
                        in case rest of
                             [] \<Rightarrow> st
                           | nxt # rest' \<Rightarrow>
                               if py_in ''from_unixtime'' (py_lower nxt)
                               then parse_lines rest' st
                               else parse_lines rest st))
         else if match_date line then parse_lines rest (data_line line st)
         else parse_lines rest st)"

text \<open>After the loop the last table is saved; the function returns the dict.\<close>

definition save_last :: "parse_state \<Rightarrow> tables" where
  "save_last st =
     (case current_table st of
        None \<Rightarrow> tables_data st
      | Some t \<Rightarrow>
          if t \<noteq> [] \<and> current_data st \<noteq> []
          then AList.update t (current_data st) (tables_data st)
          else tables_data st)"

definition parse_text :: "string list \<Rightarrow> tables" where
  "parse_text lines = save_last (parse_lines lines initial_state)"

text \<open>
  What \<^verbatim>\<open>open\<close> and \<^verbatim>\<open>readlines\<close> give: \<^verbatim>\<open>FileNotFoundError\<close>, another exception (the
  file cannot be read or decoded), or the lines of the file. Both handlers call
  \<^verbatim>\<open>sys.exit(1)\<close>; \<open>Inl n\<close> is \<^verbatim>\<open>sys.exit(n)\<close>.
\<close>

datatype read_result = FileNotFound | ReadFailure | Lines "string list"

definition parse_result_file :: "read_result \<Rightarrow> nat + tables" where
  "parse_result_file r =
     (case r of
        FileNotFound \<Rightarrow> Inl 1
      | ReadFailure \<Rightarrow> Inl 1
      | Lines lines \<Rightarrow> Inr (parse_text lines))"

subsection \<open>\<^verbatim>\<open>main\<close>\<close>






subsection \<open>Notions used to state the properties\<close>

text \<open>Two dates are consecutive when the later one minus the earlier one is
  \<^verbatim>\<open>timedelta(days=1)\<close>.\<close>

definition consecutive_days :: "datetime \<Rightarrow> datetime \<Rightarrow> bool" where
  "consecutive_days a b \<longleftrightarrow> datetime_sub b a = timedelta_days 1"

text \<open>
  The dates reached from \<open>earlier\<close> by one, two, ... whole days that lie strictly before
  \<open>later\<close>: there are \<open>\<lceil>(later - earlier) / 86400\<rceil> - 1\<close> of them.
\<close>

definition stepped_dates :: "datetime \<Rightarrow> datetime \<Rightarrow> datetime list" where
  "stepped_dates earlier later =
     map (\<lambda>k. earlier + timedelta_days (int k)) [1 ..< nat ((later - earlier + 86399) div 86400)]"

text \<open>The stepped dates of every adjacent pair of records, pair after pair.\<close>

definition adjacent_gaps :: "partition list \<Rightarrow> datetime list" where
  "adjacent_gaps ps = concat (map2 (\<lambda>p q. stepped_dates (date p) (date q)) ps (tl ps))"

text \<open>A call returns a value: it raises nothing.\<close>

definition parses :: "error + 'a \<Rightarrow> bool" where
  "parses x \<longleftrightarrow> (case x of Inl _ \<Rightarrow> False | Inr _ \<Rightarrow> True)"

text \<open>A row parses when it has its four fields, the first is a date-time in the format
  and the next three are integers; \<open>record_of\<close> is the record of such a row.\<close>

definition row_parses :: "row \<Rightarrow> bool" where
  "row_parses r \<longleftrightarrow>
     4 \<le> length r \<and> parses (strptime (r ! 0)) \<and> parses (py_int (r ! 1))
     \<and> parses (py_int (r ! 2)) \<and> parses (py_int (r ! 3))"

definition record_of :: "row \<Rightarrow> partition" where
  "record_of r =
     \<lparr>date = projr (strptime (r ! 0)), unix_ts = projr (py_int (r ! 1)),
      ordinal = projr (py_int (r ! 2)), rows = projr (py_int (r ! 3))\<rparr>"

text \<open>
  The bounding partitions of a group of missing dates: the last record of the list whose
  date is strictly before the group's first date, and the first record whose date is
  strictly after the group's last date. A command is due for a group that has both.
\<close>

definition before_partition_of :: "partition list \<Rightarrow> datetime list \<Rightarrow> partition option" where
  "before_partition_of ps g =
     (case filter (\<lambda>p. date p < hd g) ps of [] \<Rightarrow> None | p # ps' \<Rightarrow> Some (last (p # ps')))"

definition after_partition_of :: "partition list \<Rightarrow> datetime list \<Rightarrow> partition option" where
  "after_partition_of ps g = find (\<lambda>p. last g < date p) ps"

definition command_of :: "(datetime \<Rightarrow> int) \<Rightarrow> PartitionChecker \<Rightarrow> datetime list \<Rightarrow> string option" where
  "command_of timestamp self g =
     (case (before_partition_of (partitions self) g, after_partition_of (partitions self) g) of
        (Some b, Some a) \<Rightarrow> Some (create_reorganize_command timestamp self b a g)
      | _ \<Rightarrow> None)"

text \<open>The conversion \<^verbatim>\<open>timestamp()\<close> of a machine whose local time is UTC: the seconds
  since 1970-01-01, which is day 719163.\<close>

definition utc_timestamp :: "datetime \<Rightarrow> int" where
  "utc_timestamp d = d - 62135683200"


definition digits :: "nat \<Rightarrow> nat \<Rightarrow> string" where
  "digits w n = map (\<lambda>i. digit_char (n div 10 ^ i mod 10)) (rev [0 ..< w])"

definition YYYYMMDD :: "nat \<Rightarrow> nat \<Rightarrow> nat \<Rightarrow> string" where
  "YYYYMMDD y m d = digits 4 y @ digits 2 m @ digits 2 d"


text \<open>
  The kinds of line the scan tells apart, read on the raw line: blank (nothing left after
  \<^verbatim>\<open>strip\<close>), data (the stripped line starts with a date), header (not a date, contains one
  of the two column names) and table name (anything else).
\<close>

definition table_name_line :: "string \<Rightarrow> bool" where
  "table_name_line raw \<longleftrightarrow>
     py_strip raw \<noteq> [] \<and> \<not> match_date (py_strip raw) \<and> \<not> is_header (py_strip raw)"

definition header_line :: "string \<Rightarrow> bool" where
  "header_line raw \<longleftrightarrow>
     py_strip raw \<noteq> [] \<and> \<not> match_date (py_strip raw) \<and> is_header (py_strip raw)"

definition is_data_line :: "string \<Rightarrow> bool" where
  "is_data_line raw \<longleftrightarrow> match_date (py_strip raw)"

text \<open>
  The tuple of a data line, from its tokens: the first two joined by a space, the third,
  the fourth, and the fifth or \<^verbatim>\<open>"0"\<close>; none when there are fewer than four tokens.
\<close>

definition data_tuple :: "string \<Rightarrow> row option" where
  "data_tuple line =
     (case py_split line of
        [a, b, c, d] \<Rightarrow> Some [a @ '' '' @ b, c, d, ''0'']
      | a # b # c # d # e # _ \<Rightarrow> Some [a @ '' '' @ b, c, d, e]
      | _ \<Rightarrow> None)"

definition record_tuple :: "string \<Rightarrow> parse_state \<Rightarrow> parse_state" where
  "record_tuple line st =
     (case data_tuple line of
        None \<Rightarrow> st
      | Some t \<Rightarrow> st\<lparr>current_data := current_data st @ [t]\<rparr>)"

definition tuples_of :: "string list \<Rightarrow> row list" where
  "tuples_of ds = List.map_filter (\<lambda>raw. data_tuple (py_strip raw)) ds"

text \<open>Where the scan goes on after a table name: behind the next line when that line
  contains \<^verbatim>\<open>from_unixtime\<close>, at the next line otherwise.\<close>

definition after_table_name :: "string list \<Rightarrow> string list" where
  "after_table_name rest =
     (case rest of [] \<Rightarrow> []
      | nxt # rest' \<Rightarrow> if py_in ''from_unixtime'' (py_lower nxt) then rest' else rest)"

text \<open>Two properties of the state of the scan: every table saved so far has at least one
  row, and the current table, when there is one, has a name that is not empty.\<close>

definition values_nonempty :: "tables \<Rightarrow> bool" where
  "values_nonempty tabs \<longleftrightarrow> (\<forall>kv \<in> set tabs. snd kv \<noteq> [])"

definition table_named :: "parse_state \<Rightarrow> bool" where
  "table_named st \<longleftrightarrow> (\<forall>t. current_table st = Some t \<longrightarrow> t \<noteq> [])"






section \<open>Properties\<close>

subsection \<open>Evaluation of the library functions on literals\<close>

lemmas string_eval =
  py_strip_def py_split_def py_isspace_def py_lower_def lower_char_def startswith_def
  is_digit_def digit_val_def nat_of_digits_def digit_char_def str_int_def zfill_def NL_def

lemmas calendar_eval =
  datetime_new_def days_in_month_def midnight_def combine_def ymd2ord_def days_before_year_def
  days_before_month_def DAYS_BEFORE_MONTH_def DAYS_IN_MONTH_def is_leap_def ord2ymd_def
  toordinal_def MAXORDINAL_def timedelta_days_def datetime_sub_def datetime_add_def Let_def

lemmas strptime_eval =
  strptime_def format_matches_def rx_Y_def rx_m_def rx_d_def rx_H_def rx_M_def rx_S_def
  rx_lit_def rx_spaces_def rx_one_def rx_two_def one_of_def

subsection \<open>Grouping of consecutive dates\<close>

lemma group_loop_concat:
  "concat (group_loop ds cur gs) = concat gs @ cur @ ds"
  by (induction ds cur gs rule: group_loop.induct) auto

lemma group_loop_nonempty:
  "cur \<noteq> [] \<Longrightarrow> [] \<notin> set gs \<Longrightarrow> [] \<notin> set (group_loop ds cur gs)"
  by (induction ds cur gs rule: group_loop.induct) auto

lemma group_loop_runs:
  "cur \<noteq> [] \<Longrightarrow> successively consecutive_days cur
   \<Longrightarrow> \<forall>g \<in> set gs. successively consecutive_days g
   \<Longrightarrow> \<forall>g \<in> set (group_loop ds cur gs). successively consecutive_days g"
  by (induction ds cur gs rule: group_loop.induct)
     (auto simp: successively_append_iff consecutive_days_def)

lemma group_loop_breaks:
  "cur \<noteq> [] \<Longrightarrow> [] \<notin> set gs
   \<Longrightarrow> successively (\<lambda>g h. \<not> consecutive_days (last g) (hd h)) (gs @ [cur])
   \<Longrightarrow> successively (\<lambda>g h. \<not> consecutive_days (last g) (hd h)) (group_loop ds cur gs)"
proof (induction ds cur gs rule: group_loop.induct)
  case (1 cur gs)
  then show ?case by simp
next
  case (2 d ds cur gs)
  show ?case
  proof (cases "datetime_sub d (last cur) = timedelta_days 1")
    case True
    have "successively (\<lambda>g h. \<not> consecutive_days (last g) (hd h)) (gs @ [cur @ [d]])"
      using 2(3,4,5) by (auto simp: successively_append_iff)
    with 2 True show ?thesis by simp
  next
    case False
    have "successively (\<lambda>g h. \<not> consecutive_days (last g) (hd h)) ((gs @ [cur]) @ [[d]])"
      using 2(3,4,5) False by (auto simp: successively_append_iff consecutive_days_def)
    with 2 False show ?thesis by simp
  qed
qed

lemma group_consecutive_dates_nonempty: "[] \<notin> set (group_consecutive_dates dates)"
  by (cases dates) (simp_all add: group_consecutive_dates_def group_loop_nonempty)

lemma group_consecutive_dates_concat: "concat (group_consecutive_dates dates) = dates"
  by (cases dates) (simp_all add: group_consecutive_dates_def group_loop_concat)

lemma group_consecutive_dates_runs:
  "g \<in> set (group_consecutive_dates dates) \<Longrightarrow> successively consecutive_days g"
proof (cases dates)
  case Nil
  assume "g \<in> set (group_consecutive_dates dates)"
  with Nil show ?thesis by (simp add: group_consecutive_dates_def)
next
  case (Cons d0 ds)
  assume g: "g \<in> set (group_consecutive_dates dates)"
  have "\<forall>g \<in> set (group_loop ds [d0] []). successively consecutive_days g"
    by (rule group_loop_runs) simp_all
  with g Cons show ?thesis by (simp add: group_consecutive_dates_def)
qed

text \<open>
  C2. \<^verbatim>\<open>group_consecutive_dates\<close> cuts its input into contiguous groups: the groups put
  back together are the input, no group is empty, inside a group every entry is exactly
  one day after its predecessor, and where one group ends and the next begins the
  difference is not one day. So a new group starts exactly at the entries whose difference
  to their predecessor in the input is not one day. The dates 01-02, 01-03, 01-04, 01-10
  of 2025 give the two groups 01-02..01-04 and 01-10. (This holds for every list; the input
  need not be sorted.)
\<close>

theorem group_consecutive_dates_splits:
  "concat (group_consecutive_dates dates) = dates
   \<and> [] \<notin> set (group_consecutive_dates dates)
   \<and> (\<forall>g \<in> set (group_consecutive_dates dates). successively consecutive_days g)
   \<and> successively (\<lambda>g h. \<not> consecutive_days (last g) (hd h)) (group_consecutive_dates dates)
   \<and> group_consecutive_dates
         [midnight 2025 1 2, midnight 2025 1 3, midnight 2025 1 4, midnight 2025 1 10]
       = [[midnight 2025 1 2, midnight 2025 1 3, midnight 2025 1 4], [midnight 2025 1 10]]"
proof (intro conjI)
  show "concat (group_consecutive_dates dates) = dates"
    by (rule group_consecutive_dates_concat)
  show "[] \<notin> set (group_consecutive_dates dates)"
    by (rule group_consecutive_dates_nonempty)
  show "\<forall>g \<in> set (group_consecutive_dates dates). successively consecutive_days g"
    by (blast intro: group_consecutive_dates_runs)
  show "successively (\<lambda>g h. \<not> consecutive_days (last g) (hd h)) (group_consecutive_dates dates)"
  proof (cases dates)
    case Nil
    then show ?thesis by (simp add: group_consecutive_dates_def)
  next
    case (Cons d0 ds)
    have "successively (\<lambda>g h. \<not> consecutive_days (last g) (hd h)) (group_loop ds [d0] [])"
      by (rule group_loop_breaks) simp_all
    with Cons show ?thesis by (simp add: group_consecutive_dates_def)
  qed
  show "group_consecutive_dates
         [midnight 2025 1 2, midnight 2025 1 3, midnight 2025 1 4, midnight 2025 1 10]
       = [[midnight 2025 1 2, midnight 2025 1 3, midnight 2025 1 4], [midnight 2025 1 10]]"
    by (simp add: group_consecutive_dates_def calendar_eval)
qed

theorem group_consecutive_dates_splits_witness:
  "[midnight 2025 1 2, midnight 2025 1 3] \<in> set (group_consecutive_dates [midnight 2025 1 2, midnight 2025 1 3, midnight 2025 1 10])
   \<and> successively consecutive_days [midnight 2025 1 2, midnight 2025 1 3]
   \<and> concat (group_consecutive_dates [midnight 2025 1 2, midnight 2025 1 3, midnight 2025 1 10])
       = [midnight 2025 1 2, midnight 2025 1 3, midnight 2025 1 10]"
proof -
  have g: "group_consecutive_dates [midnight 2025 1 2, midnight 2025 1 3, midnight 2025 1 10]
      = [[midnight 2025 1 2, midnight 2025 1 3], [midnight 2025 1 10]]"
    by (simp add: group_consecutive_dates_def calendar_eval)
  show ?thesis
    using group_consecutive_dates_splits
      [of "[midnight 2025 1 2, midnight 2025 1 3, midnight 2025 1 10]"]
    unfolding g by simp
qed

subsection \<open>Missing dates\<close>

lemma stepped_dates_set:
  "set (stepped_dates a b) = {d. \<exists>k\<ge>1. d = a + timedelta_days k \<and> d < b}"
proof (intro set_eqI iffI)
  fix d
  assume "d \<in> set (stepped_dates a b)"
  then obtain k :: nat where k: "1 \<le> k" "k < nat ((b - a + 86399) div 86400)"
      and d: "d = a + int k * 86400"
    by (auto simp: stepped_dates_def timedelta_days_def)
  from k have "a + int k * 86400 < b" by linarith
  with k d show "d \<in> {d. \<exists>k\<ge>1. d = a + timedelta_days k \<and> d < b}"
    by (auto simp: timedelta_days_def intro!: exI [of _ "int k"])
next
  fix d
  assume "d \<in> {d. \<exists>k\<ge>1. d = a + timedelta_days k \<and> d < b}"
  then obtain k :: int where k: "1 \<le> k" "d = a + k * 86400" "d < b"
    by (auto simp: timedelta_days_def)
  then have "k < (b - a + 86399) div 86400" by linarith
  with k have "nat k \<in> {1 ..< nat ((b - a + 86399) div 86400)}" by auto
  moreover from k have "d = a + timedelta_days (int (nat k))"
    by (simp add: timedelta_days_def)
  ultimately show "d \<in> set (stepped_dates a b)"
    unfolding stepped_dates_def set_map set_upt by (rule rev_image_eqI)
qed

lemma stepped_dates_sorted: "sorted_wrt (<) (stepped_dates a b)"
  unfolding stepped_dates_def timedelta_days_def
  by (simp add: sorted_wrt_map)

lemma while_expected_steps:
  "0 \<le> toordinal e \<Longrightarrow> toordinal n < MAXORDINAL \<Longrightarrow>
   while_expected e n acc =
     Inr (acc @ map (\<lambda>k. e + timedelta_days (int k)) [0 ..< nat ((n - e + 86399) div 86400)])"
proof (induction e n acc rule: while_expected.induct)
  case (1 e n acc)
  show ?case
  proof (cases "e < n")
    case False
    then have "nat ((n - e + 86399) div 86400) = 0" by simp
    with False show ?thesis by (simp add: while_expected.simps)
  next
    case True
    let ?e' = "e + timedelta_days 1"
    have ord: "toordinal ?e' = toordinal e + 1"
      by (simp add: toordinal_def timedelta_days_def)
    from True have "toordinal e \<le> toordinal n"
      by (simp add: toordinal_def zdiv_mono1)
    with 1(2,3) ord have add: "datetime_add e (timedelta_days 1) = Inr ?e'"
      by (simp add: datetime_add_def Let_def)
    have cnt: "nat ((n - e + 86399) div 86400) = Suc (nat ((n - ?e' + 86399) div 86400))"
      using True by (simp add: timedelta_days_def)
    have IH: "while_expected ?e' n (acc @ [e]) =
      Inr ((acc @ [e]) @ map (\<lambda>k. ?e' + timedelta_days (int k)) [0 ..< nat ((n - ?e' + 86399) div 86400)])"
      using 1(1)[OF True add] 1(2,3) ord by simp
    have "map (\<lambda>k. e + timedelta_days (int k)) [0 ..< Suc (nat ((n - ?e' + 86399) div 86400))]
        = e # map (\<lambda>k. ?e' + timedelta_days (int k)) [0 ..< nat ((n - ?e' + 86399) div 86400)]"
      unfolding upt_conv_Cons[OF zero_less_Suc] map_Suc_upt[symmetric]
      by (simp add: timedelta_days_def algebra_simps)
    with True add IH cnt show ?thesis
      by (subst while_expected.simps) simp
  qed
qed


lemma for_pairs_adjacent_gaps:
  "\<forall>p \<in> set ps. valid_datetime (date p) \<and> toordinal (date p) < MAXORDINAL \<Longrightarrow>
   for_pairs ps acc = Inr (acc @ adjacent_gaps ps)"
proof (induction ps acc rule: for_pairs.induct)
  case (1 p q ps acc)
  have p: "1 \<le> toordinal (date p)" "toordinal (date p) < MAXORDINAL"
    and q: "toordinal (date q) < MAXORDINAL"
    using 1(2) by (auto simp: valid_datetime_def)
  let ?e = "date p + timedelta_days 1"
  have ord: "toordinal ?e = toordinal (date p) + 1"
    by (simp add: toordinal_def timedelta_days_def)
  with p have add: "datetime_add (date p) (timedelta_days 1) = Inr ?e"
    by (simp add: datetime_add_def Let_def)
  have w: "while_expected ?e (date q) acc =
      Inr (acc @ map (\<lambda>k. ?e + timedelta_days (int k)) [0 ..< nat ((date q - ?e + 86399) div 86400)])"
    using p q ord by (intro while_expected_steps) simp_all
  have "map (\<lambda>k. ?e + timedelta_days (int k)) [0 ..< nat ((date q - ?e + 86399) div 86400)]
      = stepped_dates (date p) (date q)"
  proof -
    have "[1 ..< nat ((date q - date p + 86399) div 86400)]
        = map Suc [0 ..< nat ((date q - ?e + 86399) div 86400)]"
    proof -
      have c: "(date q - date p + 86399) div 86400 = (date q - ?e + 86399) div 86400 + 1"
        by (simp add: timedelta_days_def)
      show ?thesis
      proof (cases "0 \<le> (date q - ?e + 86399) div 86400")
        case True
        then have "nat ((date q - date p + 86399) div 86400)
            = Suc (nat ((date q - ?e + 86399) div 86400))"
          unfolding c by simp
        then show ?thesis unfolding map_Suc_upt by simp
      next
        case False
        then have "nat ((date q - date p + 86399) div 86400) = 0"
          and "nat ((date q - ?e + 86399) div 86400) = 0"
          unfolding c by simp_all
        then show ?thesis by simp
      qed
    qed
    then show ?thesis
      unfolding stepped_dates_def by (simp add: timedelta_days_def algebra_simps)
  qed
  with w have w': "while_expected ?e (date q) acc = Inr (acc @ stepped_dates (date p) (date q))"
    by simp
  have "for_pairs (q # ps) (acc @ stepped_dates (date p) (date q))
      = Inr ((acc @ stepped_dates (date p) (date q)) @ adjacent_gaps (q # ps))"
    using 1(1)[OF add w'] 1(2) by simp
  with add w' show ?case by (simp add: adjacent_gaps_def)
qed (simp_all add: adjacent_gaps_def)

lemma adjacent_gaps_above:
  "sorted (map date ps) \<Longrightarrow> x \<in> set (adjacent_gaps ps) \<Longrightarrow> date (hd ps) < x"
proof (induction ps rule: induct_list012)
  case (3 p q ps)
  from 3(4) have "x \<in> set (stepped_dates (date p) (date q)) \<or> x \<in> set (adjacent_gaps (q # ps))"
    by (auto simp: adjacent_gaps_def)
  then show ?case
  proof
    assume "x \<in> set (stepped_dates (date p) (date q))"
    then show ?thesis by (auto simp: stepped_dates_set timedelta_days_def)
  next
    assume "x \<in> set (adjacent_gaps (q # ps))"
    with 3(2)[OF _ this] 3(3) show ?thesis by auto
  qed
qed (simp_all add: adjacent_gaps_def)

lemma adjacent_gaps_sorted: "sorted (map date ps) \<Longrightarrow> sorted_wrt (<) (adjacent_gaps ps)"
proof (induction ps rule: induct_list012)
  case (3 p q ps)
  have g: "adjacent_gaps (p # q # ps) = stepped_dates (date p) (date q) @ adjacent_gaps (q # ps)"
    by (simp add: adjacent_gaps_def)
  have "\<forall>x \<in> set (stepped_dates (date p) (date q)). \<forall>y \<in> set (adjacent_gaps (q # ps)). x < y"
  proof (intro ballI)
    fix x y
    assume "x \<in> set (stepped_dates (date p) (date q))" and y: "y \<in> set (adjacent_gaps (q # ps))"
    then have "x < date q" by (auto simp: stepped_dates_set)
    moreover have "date q < y" using adjacent_gaps_above[OF _ y] 3(3) by simp
    ultimately show "x < y" by simp
  qed
  with 3 show ?case unfolding g by (simp add: sorted_wrt_append stepped_dates_sorted)
qed (simp_all add: adjacent_gaps_def)


text \<open>Evaluation of the constructor on literal rows.\<close>

lemmas init_eval = PartitionChecker_init_def make_partition_def err_bind_def row_get_def py_int_def sort_key_def

text \<open>
  C1 (as amended). For a checker whose partition dates are valid datetimes before
  9999-12-31, \<^verbatim>\<open>find_missing_dates\<close> returns, for each adjacent pair of records in the
  order of the list, the dates reached from the earlier date by whole days that are strictly
  less than the later date, in ascending order, pair after pair; with fewer than two
  records it returns the empty list; when the records are sorted by date the whole result
  is strictly ascending. With partitions on 2025-01-01 and 2025-01-05 the result is
  01-02, 01-03, 01-04. (On the last day of the calendar the step of one day raises
  \<^verbatim>\<open>OverflowError\<close>, which is why the dates are taken before 9999-12-31.)
\<close>

theorem find_missing_dates_steps:
  "((\<forall>p \<in> set (partitions self). valid_datetime (date p) \<and> toordinal (date p) < MAXORDINAL) \<longrightarrow>
      find_missing_dates self = Inr (adjacent_gaps (partitions self)))
   \<and> (length (partitions self) < 2 \<longrightarrow> find_missing_dates self = Inr [])
   \<and> set (stepped_dates a b) = {d. \<exists>k\<ge>1. d = a + timedelta_days k \<and> d < b}
   \<and> sorted_wrt (<) (stepped_dates a b)
   \<and> (sorted (map date (partitions self)) \<longrightarrow> sorted_wrt (<) (adjacent_gaps (partitions self)))
   \<and> (date p = midnight 2025 1 1 \<and> date q = midnight 2025 1 5 \<longrightarrow>
        find_missing_dates (self\<lparr>partitions := [p, q]\<rparr>)
          = Inr [midnight 2025 1 2, midnight 2025 1 3, midnight 2025 1 4])"
proof (intro conjI impI)
  assume h: "\<forall>p \<in> set (partitions self). valid_datetime (date p) \<and> toordinal (date p) < MAXORDINAL"
  show "find_missing_dates self = Inr (adjacent_gaps (partitions self))"
  proof (cases "length (partitions self) < 2")
    case True
    then have "partitions self = [] \<or> (\<exists>x. partitions self = [x])"
      by (cases "partitions self") auto
    then have "adjacent_gaps (partitions self) = []"
      by (auto simp: adjacent_gaps_def)
    with True show ?thesis by (simp add: find_missing_dates_def)
  next
    case False
    with for_pairs_adjacent_gaps[OF h, of "[]"] show ?thesis by (simp add: find_missing_dates_def)
  qed
next
  assume "length (partitions self) < 2"
  then show "find_missing_dates self = Inr []" by (simp add: find_missing_dates_def)
next
  show "set (stepped_dates a b) = {d. \<exists>k\<ge>1. d = a + timedelta_days k \<and> d < b}"
    by (rule stepped_dates_set)
  show "sorted_wrt (<) (stepped_dates a b)" by (rule stepped_dates_sorted)
next
  assume "sorted (map date (partitions self))"
  then show "sorted_wrt (<) (adjacent_gaps (partitions self))" by (rule adjacent_gaps_sorted)
next
  assume pq: "date p = midnight 2025 1 1 \<and> date q = midnight 2025 1 5"
  have "\<forall>r \<in> set [p, q]. valid_datetime (date r) \<and> toordinal (date r) < MAXORDINAL"
    using pq by (simp add: valid_datetime_def calendar_eval)
  from for_pairs_adjacent_gaps[OF this, of "[]"] pq
  show "find_missing_dates (self\<lparr>partitions := [p, q]\<rparr>)
          = Inr [midnight 2025 1 2, midnight 2025 1 3, midnight 2025 1 4]"
    by (simp add: find_missing_dates_def adjacent_gaps_def stepped_dates_def calendar_eval upt_rec)
qed

theorem find_missing_dates_steps_witness:
  "valid_datetime (midnight 2025 10 6) \<and> toordinal (midnight 2025 10 6) < MAXORDINAL
   \<and> valid_datetime (midnight 2025 10 9) \<and> toordinal (midnight 2025 10 9) < MAXORDINAL
   \<and> find_missing_dates
        \<lparr>table_name = ''t1'',
         partitions = [\<lparr>date = midnight 2025 10 6, unix_ts = 1759878000, ordinal = 89, rows = 0\<rparr>,
                       \<lparr>date = midnight 2025 10 9, unix_ts = 1759964400, ordinal = 90, rows = 0\<rparr>]\<rparr>
       = Inr [midnight 2025 10 7, midnight 2025 10 8]
   \<and> sorted (map date
        [\<lparr>date = midnight 2025 10 6, unix_ts = 1759878000, ordinal = 89, rows = 0\<rparr>,
         \<lparr>date = midnight 2025 10 9, unix_ts = 1759964400, ordinal = 90, rows = 0\<rparr>])
   \<and> sorted_wrt (<) [midnight 2025 10 7, midnight 2025 10 8]
   \<and> length [\<lparr>date = midnight 2025 10 6, unix_ts = 1759878000, ordinal = 89, rows = 0\<rparr>] < 2
   \<and> find_missing_dates
        \<lparr>table_name = ''t1'',
         partitions = [\<lparr>date = midnight 2025 10 6, unix_ts = 1759878000, ordinal = 89, rows = 0\<rparr>]\<rparr>
       = Inr []
   \<and> find_missing_dates
        \<lparr>table_name = ''t1'',
         partitions = [\<lparr>date = midnight 2025 1 1, unix_ts = 1735689600, ordinal = 1, rows = 0\<rparr>,
                       \<lparr>date = midnight 2025 1 5, unix_ts = 1736035200, ordinal = 2, rows = 0\<rparr>]\<rparr>
       = Inr [midnight 2025 1 2, midnight 2025 1 3, midnight 2025 1 4]"
proof -
  let ?p6 = "\<lparr>date = midnight 2025 10 6, unix_ts = 1759878000, ordinal = 89, rows = 0\<rparr>"
  let ?p9 = "\<lparr>date = midnight 2025 10 9, unix_ts = 1759964400, ordinal = 90, rows = 0\<rparr>"
  let ?q1 = "\<lparr>date = midnight 2025 1 1, unix_ts = 1735689600, ordinal = 1, rows = 0\<rparr>"
  let ?q5 = "\<lparr>date = midnight 2025 1 5, unix_ts = 1736035200, ordinal = 2, rows = 0\<rparr>"
  let ?c = "\<lparr>table_name = ''t1'', partitions = [?p6, ?p9]\<rparr>"
  let ?c1 = "\<lparr>table_name = ''t1'', partitions = [?p6]\<rparr>"
  have v: "valid_datetime (midnight 2025 10 6) \<and> toordinal (midnight 2025 10 6) < MAXORDINAL
   \<and> valid_datetime (midnight 2025 10 9) \<and> toordinal (midnight 2025 10 9) < MAXORDINAL"
    by (simp add: valid_datetime_def calendar_eval)
  then have h: "\<forall>p \<in> set (partitions ?c). valid_datetime (date p) \<and> toordinal (date p) < MAXORDINAL"
    by simp
  have srt: "sorted (map date (partitions ?c))"
    by (simp add: calendar_eval)
  have gaps: "adjacent_gaps (partitions ?c) = [midnight 2025 10 7, midnight 2025 10 8]"
    by (simp add: adjacent_gaps_def stepped_dates_def calendar_eval upt_rec)
  note inst = find_missing_dates_steps[of ?c "midnight 2025 10 6" "midnight 2025 10 9" ?q1 ?q5]
  from inst h have a: "find_missing_dates ?c = Inr (adjacent_gaps (partitions ?c))"
    by blast
  from inst srt have b: "sorted_wrt (<) (adjacent_gaps (partitions ?c))"
    by blast
  have "length (partitions ?c1) < 2" by simp
  with find_missing_dates_steps[of ?c1] have c: "find_missing_dates ?c1 = Inr []"
    by blast
  have "date ?q1 = midnight 2025 1 1 \<and> date ?q5 = midnight 2025 1 5" by simp
  with inst have "find_missing_dates (?c\<lparr>partitions := [?q1, ?q5]\<rparr>)
      = Inr [midnight 2025 1 2, midnight 2025 1 3, midnight 2025 1 4]"
    by blast
  then have d: "find_missing_dates \<lparr>table_name = ''t1'', partitions = [?q1, ?q5]\<rparr>
      = Inr [midnight 2025 1 2, midnight 2025 1 3, midnight 2025 1 4]"
    by simp
  from v a b c d srt show ?thesis unfolding gaps by simp
qed

text \<open>
  Two rows on 9999-12-31 are accepted by the constructor, and \<^verbatim>\<open>find_missing_dates\<close>
  then raises \<^verbatim>\<open>OverflowError\<close> at \<^verbatim>\<open>current_date + timedelta(days=1)\<close> instead of
  returning a list.
\<close>

theorem find_missing_dates_overflow:
  "PartitionChecker_init ''t''
      [[''9999-12-31 00:00:00'', ''1'', ''1'', ''0''], [''9999-12-31 00:00:00'', ''2'', ''2'', ''0'']]
     = Inr (\<lparr>table_name = ''t'',
             partitions = [\<lparr>date = midnight 9999 12 31, unix_ts = 1, ordinal = 1, rows = 0\<rparr>,
                           \<lparr>date = midnight 9999 12 31, unix_ts = 2, ordinal = 2, rows = 0\<rparr>]\<rparr>, [])
   \<and> find_missing_dates
        \<lparr>table_name = ''t'',
         partitions = [\<lparr>date = midnight 9999 12 31, unix_ts = 1, ordinal = 1, rows = 0\<rparr>,
                       \<lparr>date = midnight 9999 12 31, unix_ts = 2, ordinal = 2, rows = 0\<rparr>]\<rparr>
       = Inl OverflowError"
proof
  have s: "strptime ''9999-12-31 00:00:00'' = Inr (midnight 9999 12 31)"
    by (simp add: strptime_eval string_eval calendar_eval)
  show "PartitionChecker_init ''t''
      [[''9999-12-31 00:00:00'', ''1'', ''1'', ''0''], [''9999-12-31 00:00:00'', ''2'', ''2'', ''0'']]
     = Inr (\<lparr>table_name = ''t'',
             partitions = [\<lparr>date = midnight 9999 12 31, unix_ts = 1, ordinal = 1, rows = 0\<rparr>,
                           \<lparr>date = midnight 9999 12 31, unix_ts = 2, ordinal = 2, rows = 0\<rparr>]\<rparr>, [])"
    by (simp add: init_eval s string_eval)
  show "find_missing_dates
        \<lparr>table_name = ''t'',
         partitions = [\<lparr>date = midnight 9999 12 31, unix_ts = 1, ordinal = 1, rows = 0\<rparr>,
                       \<lparr>date = midnight 9999 12 31, unix_ts = 2, ordinal = 2, rows = 0\<rparr>]\<rparr>
       = Inl OverflowError"
    by (simp add: find_missing_dates_def calendar_eval)
qed

subsection \<open>Construction\<close>

lemma strptime_error: "strptime s = Inl e \<Longrightarrow> e = ValueError"
  by (auto simp: strptime_def datetime_new_def split: list.splits prod.splits if_splits)

lemma py_int_error: "py_int s = Inl e \<Longrightarrow> e = ValueError"
  by (auto simp: py_int_def Let_def split: if_splits)

lemma make_partition_Inr:
  "row_parses r \<Longrightarrow> make_partition r = Inr (record_of r)"
  by (auto simp: row_parses_def parses_def make_partition_def err_bind_def row_get_def record_of_def
      split: sum.splits)

lemma make_partition_Inl:
  "\<not> row_parses r \<Longrightarrow> make_partition r = Inl ValueError \<or> make_partition r = Inl IndexError"
  by (auto simp: row_parses_def parses_def make_partition_def err_bind_def row_get_def
      split: sum.splits dest: strptime_error py_int_error)

lemma init_loop_result:
  "init_loop rs ps warned =
     Inr (ps @ map record_of (filter row_parses rs), warned @ filter (\<lambda>r. \<not> row_parses r) rs)"
proof (induction rs arbitrary: ps warned)
  case Nil
  show ?case by simp
next
  case (Cons r rs)
  show ?case
  proof (cases "row_parses r")
    case True
    with Cons make_partition_Inr[OF True] show ?thesis by simp
  next
    case False
    with Cons make_partition_Inl[OF False] show ?thesis by auto
  qed
qed

lemma PartitionChecker_init_result:
  "PartitionChecker_init name rs =
     Inr (\<lparr>table_name = name, partitions = sort_key date (map record_of (filter row_parses rs))\<rparr>,
          filter (\<lambda>r. \<not> row_parses r) rs)"
  by (simp add: PartitionChecker_init_def init_loop_result)


text \<open>
  C5. The constructor never raises. It keeps exactly the rows that have four fields of
  which the first parses as a date-time in the format \<^verbatim>\<open>%Y-%m-%d %H:%M:%S\<close> and the next
  three parse as integers, each turned into its record; every other row is dropped with a
  warning; and the records kept are sorted ascending by date, whatever the order of the
  rows. The later operations are functions of the checker that return no checker: they
  cannot change the list.
\<close>

theorem PartitionChecker_init_retains_sorted:
  "PartitionChecker_init name rs =
     Inr (\<lparr>table_name = name, partitions = sort_key date (map record_of (filter row_parses rs))\<rparr>,
          filter (\<lambda>r. \<not> row_parses r) rs)
   \<and> sorted (map date (sort_key date (map record_of (filter row_parses rs))))"
  by (simp add: PartitionChecker_init_result)

theorem PartitionChecker_init_retains_sorted_witness:
  "PartitionChecker_init ''t1''
     [[''2025-10-09 00:00:00'', ''1759964400'', ''90'', ''0''],
      [''x''],
      [''2025-10-06 00:00:00'', ''1759878000'', ''89'', ''0.5''],
      [''2025-10-06 00:00:00'', ''1759878000'', ''89'', ''0'']]
   = Inr (\<lparr>table_name = ''t1'',
           partitions = [\<lparr>date = midnight 2025 10 6, unix_ts = 1759878000, ordinal = 89, rows = 0\<rparr>,
                         \<lparr>date = midnight 2025 10 9, unix_ts = 1759964400, ordinal = 90, rows = 0\<rparr>]\<rparr>,
          [[''x''], [''2025-10-06 00:00:00'', ''1759878000'', ''89'', ''0.5'']])"
proof -
  have s9: "strptime ''2025-10-09 00:00:00'' = Inr (midnight 2025 10 9)"
    by (simp add: strptime_eval string_eval calendar_eval)
  have s6: "strptime ''2025-10-06 00:00:00'' = Inr (midnight 2025 10 6)"
    by (simp add: strptime_eval string_eval calendar_eval)
  have i1: "py_int ''1759964400'' = Inr 1759964400" "py_int ''1759878000'' = Inr 1759878000"
    "py_int ''90'' = Inr 90" "py_int ''89'' = Inr 89" "py_int ''0'' = Inr 0"
    "py_int ''0.5'' = Inl ValueError"
    by (simp_all add: py_int_def string_eval)
  have lt: "midnight 2025 10 6 < midnight 2025 10 9"
    by (simp add: calendar_eval)
  show ?thesis
    using PartitionChecker_init_retains_sorted
      [of "''t1''" "[[''2025-10-09 00:00:00'', ''1759964400'', ''90'', ''0''],
      [''x''],
      [''2025-10-06 00:00:00'', ''1759878000'', ''89'', ''0.5''],
      [''2025-10-06 00:00:00'', ''1759878000'', ''89'', ''0'']]"] lt
    by (simp add: row_parses_def record_of_def parses_def s9 s6 i1 sort_key_def)
qed

subsection \<open>Reorganize commands for the groups\<close>

lemma scan_partitions_sorted:
  "sorted (map date ps) \<Longrightarrow> s \<le> e \<Longrightarrow>
   scan_partitions ps s e b None =
     (case filter (\<lambda>p. date p < s) ps of [] \<Rightarrow> b | p # ps' \<Rightarrow> Some (last (p # ps')),
      find (\<lambda>p. e < date p) ps)"
proof (induction ps arbitrary: b)
  case Nil
  show ?case by simp
next
  case (Cons p ps)
  from Cons.prems have srt: "sorted (map date ps)" and le: "\<forall>q \<in> set ps. date p \<le> date q"
    by auto
  consider "date p < s" | "\<not> date p < s" "e < date p" | "\<not> date p < s" "\<not> e < date p"
    by blast
  then show ?case
  proof cases
    case 1
    with Cons.prems have "\<not> e < date p" by simp
    with 1 Cons.IH[OF srt Cons.prems(2), of "Some p"] show ?thesis
      by (simp split: list.splits)
  next
    case 2
    with le Cons.prems(2) have "filter (\<lambda>q. date q < s) ps = []"
      by (auto simp: filter_empty_conv)
    with 2 show ?thesis by simp
  next
    case 3
    with Cons.IH[OF srt Cons.prems(2), of b] show ?thesis by simp
  qed
qed

lemma consecutive_hd_le_last:
  "successively consecutive_days g \<Longrightarrow> g \<noteq> [] \<Longrightarrow> hd g \<le> last g"
proof (induction g rule: induct_list012)
  case (3 x y zs)
  then have "x < y" "hd (y # zs) \<le> last (y # zs)"
    by (auto simp: consecutive_days_def datetime_sub_def timedelta_days_def)
  then show ?case by simp
qed simp_all

lemma for_groups_result:
  "sorted (map date (partitions self)) \<Longrightarrow>
   \<forall>g \<in> set gs. g \<noteq> [] \<and> hd g \<le> last g \<Longrightarrow>
   for_groups ts self gs cmds = Inr (cmds @ List.map_filter (command_of ts self) gs)"
proof (induction gs arbitrary: cmds)
  case Nil
  show ?case by (simp add: List.map_filter_simps)
next
  case (Cons g gs)
  from Cons.prems have g: "g \<noteq> []" "hd g \<le> last g" by auto
  have scan: "scan_partitions (partitions self) (hd g) (last g) None None
      = (before_partition_of (partitions self) g, after_partition_of (partitions self) g)"
    using scan_partitions_sorted[OF Cons.prems(1) g(2), of None]
    by (simp add: before_partition_of_def after_partition_of_def split: list.splits)
  show ?case
    using g Cons.IH[OF Cons.prems(1)] Cons.prems(2)
    by (auto simp: scan command_of_def List.map_filter_simps Let_def split: option.splits)
qed

lemma groups_bounds:
  "g \<in> set (group_consecutive_dates ds) \<Longrightarrow> g \<noteq> [] \<and> hd g \<le> last g"
  using group_consecutive_dates_nonempty[of ds] group_consecutive_dates_runs[of g ds]
  by (auto intro: consecutive_hd_le_last)

lemma generate_reorganize_commands_sorted:
  assumes "sorted (map date (partitions self))"
  shows "generate_reorganize_commands ts self missing
    = Inr (List.map_filter (command_of ts self) (group_consecutive_dates missing))"
proof (cases "missing = []")
  case True
  then show ?thesis
    by (simp add: generate_reorganize_commands_def group_consecutive_dates_def List.map_filter_simps)
next
  case False
  with for_groups_result[OF assms, of "group_consecutive_dates missing" ts "[]"] groups_bounds
  show ?thesis by (simp add: generate_reorganize_commands_def)
qed

lemma before_partition_of_None:
  "before_partition_of ps g = None \<longleftrightarrow> \<not> (\<exists>p \<in> set ps. date p < hd g)"
proof -
  have "before_partition_of ps g = None \<longleftrightarrow> filter (\<lambda>p. date p < hd g) ps = []"
    by (simp add: before_partition_of_def split: list.splits)
  then show ?thesis by (simp add: filter_empty_conv)
qed

lemma after_partition_of_None:
  "after_partition_of ps g = None \<longleftrightarrow> \<not> (\<exists>p \<in> set ps. last g < date p)"
  by (auto simp: after_partition_of_def find_None_iff)


lemma init_sorted:
  "PartitionChecker_init name rs = Inr (self, warned) \<Longrightarrow> sorted (map date (partitions self))"
  by (auto simp: PartitionChecker_init_result)

text \<open>
  C3. For a checker as the constructor builds it, \<^verbatim>\<open>generate_reorganize_commands\<close> returns,
  in the order of the groups, the command of every consecutive group that has both bounding
  partitions, built from the last partition strictly before the group's first date and the
  first partition strictly after its last date; a group that lacks one of them gives no
  command. A bounding partition is missing exactly when no partition lies on that side. In
  particular a single group with no partition before it gives no command at all.
\<close>

theorem generate_reorganize_commands_bounded:
  assumes "PartitionChecker_init name rs = Inr (self, warned)"
  shows "generate_reorganize_commands ts self missing
           = Inr (List.map_filter (command_of ts self) (group_consecutive_dates missing))
         \<and> (before_partition_of (partitions self) g = None
              \<longleftrightarrow> \<not> (\<exists>p \<in> set (partitions self). date p < hd g))
         \<and> (after_partition_of (partitions self) g = None
              \<longleftrightarrow> \<not> (\<exists>p \<in> set (partitions self). last g < date p))
         \<and> (successively consecutive_days g \<and> g \<noteq> []
              \<and> \<not> (\<exists>p \<in> set (partitions self). date p < hd g)
              \<longrightarrow> generate_reorganize_commands ts self g = Inr [])"
proof (intro conjI impI)
  have srt: "sorted (map date (partitions self))"
    using assms by (rule init_sorted)
  show "generate_reorganize_commands ts self missing
           = Inr (List.map_filter (command_of ts self) (group_consecutive_dates missing))"
    using srt by (rule generate_reorganize_commands_sorted)
  show "before_partition_of (partitions self) g = None
              \<longleftrightarrow> \<not> (\<exists>p \<in> set (partitions self). date p < hd g)"
    by (rule before_partition_of_None)
  show "after_partition_of (partitions self) g = None
              \<longleftrightarrow> \<not> (\<exists>p \<in> set (partitions self). last g < date p)"
    by (rule after_partition_of_None)
  assume g: "successively consecutive_days g \<and> g \<noteq> []
              \<and> \<not> (\<exists>p \<in> set (partitions self). date p < hd g)"
  then have none: "before_partition_of (partitions self) g = None"
    by (simp add: before_partition_of_None)
  have one: "group_consecutive_dates g = [g]"
  proof -
    have "successively consecutive_days (cur @ ds) \<Longrightarrow> cur \<noteq> [] \<Longrightarrow>
        group_loop ds cur gs = gs @ [cur @ ds]" for ds cur gs
      by (induction ds cur gs rule: group_loop.induct)
         (auto simp: successively_append_iff consecutive_days_def)
    from this[of "[hd g]" "tl g" "[]"] g show ?thesis
      by (cases g) (simp_all add: group_consecutive_dates_def)
  qed
  show "generate_reorganize_commands ts self g = Inr []"
    unfolding generate_reorganize_commands_sorted[OF srt] one
    by (simp add: List.map_filter_simps command_of_def none)
qed


text \<open>Evaluation of a command on literals.\<close>

lemmas command_eval =
  create_reorganize_command_def generate_partition_name_def strftime_Ymd_def str_nat.simps
  utc_timestamp_def

theorem generate_reorganize_commands_bounded_witness:
  "PartitionChecker_init ''t1''
     [[''2025-10-09 00:00:00'', ''1759964400'', ''90'', ''0''],
      [''2025-10-06 00:00:00'', ''1759878000'', ''89'', ''0'']]
   = Inr (\<lparr>table_name = ''t1'',
           partitions = [\<lparr>date = midnight 2025 10 6, unix_ts = 1759878000, ordinal = 89, rows = 0\<rparr>,
                         \<lparr>date = midnight 2025 10 9, unix_ts = 1759964400, ordinal = 90, rows = 0\<rparr>]\<rparr>,
          [])
   \<and> generate_reorganize_commands utc_timestamp
        \<lparr>table_name = ''t1'',
         partitions = [\<lparr>date = midnight 2025 10 6, unix_ts = 1759878000, ordinal = 89, rows = 0\<rparr>,
                       \<lparr>date = midnight 2025 10 9, unix_ts = 1759964400, ordinal = 90, rows = 0\<rparr>]\<rparr>
        [midnight 2025 10 7, midnight 2025 10 8]
     = Inr [''ALTER TABLE t1\<newline>REORGANIZE PARTITION p20251009 INTO (\<newline>  PARTITION p20251007 VALUES LESS THAN (1759795200) ENGINE = InnoDB,\<newline>  PARTITION p20251008 VALUES LESS THAN (1759881600) ENGINE = InnoDB,\<newline>  PARTITION p20251009 VALUES LESS THAN (1759964400) ENGINE = InnoDB\<newline>);'']
   \<and> generate_reorganize_commands utc_timestamp
        \<lparr>table_name = ''t1'',
         partitions = [\<lparr>date = midnight 2025 10 6, unix_ts = 1759878000, ordinal = 89, rows = 0\<rparr>,
                       \<lparr>date = midnight 2025 10 9, unix_ts = 1759964400, ordinal = 90, rows = 0\<rparr>]\<rparr>
        [midnight 2025 10 5]
     = Inr []"
proof -
  let ?rs = "[[''2025-10-09 00:00:00'', ''1759964400'', ''90'', ''0''],
      [''2025-10-06 00:00:00'', ''1759878000'', ''89'', ''0'']]"
  let ?c = "\<lparr>table_name = ''t1'',
         partitions = [\<lparr>date = midnight 2025 10 6, unix_ts = 1759878000, ordinal = 89, rows = 0\<rparr>,
                       \<lparr>date = midnight 2025 10 9, unix_ts = 1759964400, ordinal = 90, rows = 0\<rparr>]\<rparr>"
  have s9: "strptime ''2025-10-09 00:00:00'' = Inr (midnight 2025 10 9)"
    by (simp add: strptime_eval string_eval calendar_eval)
  have s6: "strptime ''2025-10-06 00:00:00'' = Inr (midnight 2025 10 6)"
    by (simp add: strptime_eval string_eval calendar_eval)
  have lt: "midnight 2025 10 6 < midnight 2025 10 9"
    by (simp add: calendar_eval)
  have init: "PartitionChecker_init ''t1'' ?rs = Inr (?c, [])"
    using lt by (simp add: init_eval s9 s6 string_eval)
  have g78: "group_consecutive_dates [midnight 2025 10 7, midnight 2025 10 8]
      = [[midnight 2025 10 7, midnight 2025 10 8]]"
    by (simp add: group_consecutive_dates_def calendar_eval)
  have c78: "command_of utc_timestamp ?c [midnight 2025 10 7, midnight 2025 10 8]
     = Some ''ALTER TABLE t1\<newline>REORGANIZE PARTITION p20251009 INTO (\<newline>  PARTITION p20251007 VALUES LESS THAN (1759795200) ENGINE = InnoDB,\<newline>  PARTITION p20251008 VALUES LESS THAN (1759881600) ENGINE = InnoDB,\<newline>  PARTITION p20251009 VALUES LESS THAN (1759964400) ENGINE = InnoDB\<newline>);''"
    by (simp add: command_of_def before_partition_of_def after_partition_of_def command_eval
        calendar_eval string_eval)
  from generate_reorganize_commands_bounded[OF init, of utc_timestamp "[midnight 2025 10 7, midnight 2025 10 8]"]
  have a: "generate_reorganize_commands utc_timestamp ?c [midnight 2025 10 7, midnight 2025 10 8]
     = Inr [''ALTER TABLE t1\<newline>REORGANIZE PARTITION p20251009 INTO (\<newline>  PARTITION p20251007 VALUES LESS THAN (1759795200) ENGINE = InnoDB,\<newline>  PARTITION p20251008 VALUES LESS THAN (1759881600) ENGINE = InnoDB,\<newline>  PARTITION p20251009 VALUES LESS THAN (1759964400) ENGINE = InnoDB\<newline>);'']"
    unfolding g78 by (simp add: List.map_filter_simps c78)
  have "successively consecutive_days [midnight 2025 10 5] \<and> [midnight 2025 10 5] \<noteq> []
      \<and> \<not> (\<exists>p \<in> set (partitions ?c). date p < hd [midnight 2025 10 5])"
    by (simp add: calendar_eval)
  with generate_reorganize_commands_bounded[OF init, of utc_timestamp "[]" "[midnight 2025 10 5]"]
  have b: "generate_reorganize_commands utc_timestamp ?c [midnight 2025 10 5] = Inr []"
    by blast
  from init a b show ?thesis by simp
qed

subsection \<open>The calendar: a day number and its date\<close>

text \<open>The stages of \<^verbatim>\<open>_ord2ymd\<close>: the cycles of 400 years, 100 years, 4 years and 1 year,
  then the month and the day from the day of the year.\<close>

lemma ord2ymd_stages:
  fixes A B C E D0 R1 R2 R3 :: int
  assumes s1: "num - 1 = 146097 * A + R1" "0 \<le> R1" "R1 < 146097"
    and s2: "R1 = 36524 * B + R2" "0 \<le> R2" "R2 < 36524"
    and s3: "R2 = 1461 * C + R3" "0 \<le> R3" "R3 < 1461"
    and s4: "R3 = 365 * E + D0" "0 \<le> D0" "D0 < 365"
  shows "ord2ymd num =
     (if E = 4 \<or> B = 4 then (nat (A * 400 + 1 + B * 100 + C * 4 + E - 1), 12, 31)
      else
        (let leapyear = (E = 3 \<and> (C \<noteq> 24 \<or> B = 3));
             month = nat ((D0 + 50) div 32);
             preceding = int (DAYS_BEFORE_MONTH ! month) + (if month > 2 \<and> leapyear then 1 else 0)
         in if preceding > D0
            then (let month = month - 1;
                      preceding = preceding
                        - (int (DAYS_IN_MONTH ! month) + (if month = 2 \<and> leapyear then 1 else 0))
                  in (nat (A * 400 + 1 + B * 100 + C * 4 + E), month, nat (D0 - preceding + 1)))
            else (nat (A * 400 + 1 + B * 100 + C * 4 + E), month, nat (D0 - preceding + 1))))"
proof -
  have d1: "(num - 1) div 146097 = A" "(num - 1) mod 146097 = R1"
    using s1 by (auto intro: int_div_pos_eq int_mod_pos_eq)
  have d2: "R1 div 36524 = B" "R1 mod 36524 = R2"
    using s2 by (auto intro: int_div_pos_eq int_mod_pos_eq)
  have d3: "R2 div 1461 = C" "R2 mod 1461 = R3"
    using s3 by (auto intro: int_div_pos_eq int_mod_pos_eq)
  have d4: "R3 div 365 = E" "R3 mod 365 = D0"
    using s4 by (auto intro: int_div_pos_eq int_mod_pos_eq)
  show ?thesis
    unfolding ord2ymd_def Let_def d1 d2 d3 d4 ..
qed


lemma month_cases:
  fixes m :: nat
  assumes "1 \<le> m" "m \<le> 12"
  obtains "m = 1" | "m = 2" | "m = 3" | "m = 4" | "m = 5" | "m = 6"
    | "m = 7" | "m = 8" | "m = 9" | "m = 10" | "m = 11" | "m = 12"
  using assms by atomize_elim arith

lemma month_day:
  fixes D0 :: int
  assumes m: "1 \<le> m" "m \<le> 12" and d: "1 \<le> d"
    "d \<le> (if m = 2 \<and> L then 29 else DAYS_IN_MONTH ! m)"
    and D0: "D0 = int (DAYS_BEFORE_MONTH ! m + (if m > 2 \<and> L then 1 else 0) + d) - 1"
    and lt: "D0 < 365"
  shows "(let leapyear = L;
             month = nat ((D0 + 50) div 32);
             preceding = int (DAYS_BEFORE_MONTH ! month) + (if month > 2 \<and> leapyear then 1 else 0)
         in if preceding > D0
            then (let month = month - 1;
                      preceding = preceding
                        - (int (DAYS_IN_MONTH ! month) + (if month = 2 \<and> leapyear then 1 else 0))
                  in (Y, month, nat (D0 - preceding + 1)))
            else (Y, month, nat (D0 - preceding + 1))) = (Y, m, d)"
proof -
  define start where "start k = int (DAYS_BEFORE_MONTH ! k) + (if k > 2 \<and> L then 1 else 0)" for k
  define len where "len k = int (DAYS_IN_MONTH ! k) + (if k = 2 \<and> L then 1 else 0)" for k
  have tab: "32 * int m \<le> start m + 50" "start m + len m + 49 < 32 * (int m + 2)"
    "m < 12 \<longrightarrow> start (Suc m) = start m + len m" "m = 12 \<longrightarrow> 383 \<le> start m + 50"
    using m
    by (cases m rule: month_cases;
        simp add: start_def len_def DAYS_BEFORE_MONTH_def DAYS_IN_MONTH_def)+
  have D: "D0 = start m + int d - 1"
    using D0 by (simp add: start_def)
  have dl: "int d \<le> len m"
    using m by (cases m rule: month_cases) (use d(2) in \<open>auto simp: len_def DAYS_IN_MONTH_def split: if_splits\<close>)
  have b: "32 * int m \<le> D0 + 50" "D0 + 50 < 32 * (int m + 2)"
    using tab(1,2) D dl d(1) by linarith+
  have q: "int m \<le> (D0 + 50) div 32" "(D0 + 50) div 32 \<le> int m + 1"
    using zdiv_mono1[of "32 * int m" "D0 + 50" 32]
      zdiv_mono1[of "D0 + 50" "32 * (int m + 1) + 31" 32] b
    by simp_all
  have "m = 12 \<Longrightarrow> (D0 + 50) div 32 \<le> int m"
    using zdiv_mono1[of "D0 + 50" 414 32] lt by simp
  with q m(2) have "(D0 + 50) div 32 = int m \<or> ((D0 + 50) div 32 = int m + 1 \<and> m < 12)"
    by (cases "m = 12") auto
  then show ?thesis
  proof (elim disjE conjE)
    assume v: "(D0 + 50) div 32 = int m"
    have n: "nat (int m) = m" by simp
    have "\<not> start m > D0" using D d(1) by simp
    then show ?thesis
      unfolding Let_def v n start_def[symmetric] using D by simp
  next
    assume v: "(D0 + 50) div 32 = int m + 1" and m12: "m < 12"
    have n: "nat (int m + 1) = Suc m" by simp
    have s: "start (Suc m) = start m + len m" using tab(3) m12 by simp
    have "start (Suc m) > D0" unfolding s using D dl by simp
    then show ?thesis
      unfolding Let_def v n start_def[symmetric] diff_Suc_1 len_def[symmetric] using D s by simp
  qed
qed

text \<open>A year as its position in these cycles.\<close>

lemma div_parts:
  fixes k e n :: nat
  assumes "e < n"
  shows "(n * k + e) div n = k" "(n * k + e) mod n = e"
  using assms by simp_all

lemma year_parts:
  fixes Y :: nat
  obtains a b c e where "Y = 400 * a + 100 * b + 4 * c + e" "b < 4" "c < 25" "e < 4"
proof
  define r where "r = Y mod 400"
  define s where "s = r mod 100"
  have 1: "Y = 400 * (Y div 400) + r" by (simp add: r_def)
  have 2: "r = 100 * (r div 100) + s" by (simp add: s_def)
  have 3: "s = 4 * (s div 4) + s mod 4" by simp
  show "Y = 400 * (Y div 400) + 100 * (r div 100) + 4 * (s div 4) + s mod 4"
    using 1 2 3 by linarith
  have "r < 400" by (simp add: r_def)
  then show "r div 100 < 4" by simp
  have "s < 100" by (simp add: s_def)
  then show "s div 4 < 25" by simp
  show "s mod 4 < 4" by simp
qed

lemma days_before_year_parts:
  assumes "b < 4" "c < 25" "e < 4"
  shows "days_before_year (Suc (400 * a + 100 * b + 4 * c + e))
    = 146097 * a + 36524 * b + 1461 * c + 365 * e"
proof -
  let ?Y = "400 * a + 100 * b + 4 * c + e"
  have "?Y = 4 * (100 * a + 25 * b + c) + e" by simp
  then have d4: "?Y div 4 = 100 * a + 25 * b + c"
    using div_parts(1)[OF assms(3), of "100 * a + 25 * b + c"] by simp
  have "4 * c + e < 100" using assms by simp
  moreover have "?Y = 100 * (4 * a + b) + (4 * c + e)" by simp
  ultimately have d100: "?Y div 100 = 4 * a + b"
    using div_parts(1)[of "4 * c + e" 100 "4 * a + b"] by simp
  have "100 * b + 4 * c + e < 400" using assms by simp
  moreover have "?Y = 400 * a + (100 * b + 4 * c + e)" by simp
  ultimately have d400: "?Y div 400 = a"
    using div_parts(1)[of "100 * b + 4 * c + e" 400 a] by simp
  show ?thesis unfolding days_before_year_def Let_def diff_Suc_1 d4 d100 d400 by simp
qed


lemma mod_parts:
  fixes k r n :: nat
  assumes "r \<le> n" "0 < n"
  shows "(n * k + r) mod n = 0 \<longleftrightarrow> r = 0 \<or> r = n"
proof (cases "r = n")
  case True
  then show ?thesis by simp
next
  case False
  with assms have "r < n" by simp
  then show ?thesis by simp
qed

lemma is_leap_parts:
  assumes "b < 4" "c < 25" "e < 4"
  shows "is_leap (Suc (400 * a + 100 * b + 4 * c + e)) \<longleftrightarrow> e = 3 \<and> (c \<noteq> 24 \<or> b = 3)"
proof -
  let ?y = "Suc (400 * a + 100 * b + 4 * c + e)"
  have e4: "?y = 4 * (100 * a + 25 * b + c) + (e + 1)" by simp
  have m4: "?y mod 4 = 0 \<longleftrightarrow> e + 1 = 0 \<or> e + 1 = 4"
    unfolding e4 by (rule mod_parts) (use assms in simp_all)
  have e100: "?y = 100 * (4 * a + b) + (4 * c + e + 1)" by simp
  have m100: "?y mod 100 = 0 \<longleftrightarrow> 4 * c + e + 1 = 0 \<or> 4 * c + e + 1 = 100"
    unfolding e100 by (rule mod_parts) (use assms in simp_all)
  have e400: "?y = 400 * a + (100 * b + 4 * c + e + 1)" by simp
  have m400: "?y mod 400 = 0 \<longleftrightarrow> 100 * b + 4 * c + e + 1 = 0 \<or> 100 * b + 4 * c + e + 1 = 400"
    unfolding e400 by (rule mod_parts) (use assms in simp_all)
  show ?thesis unfolding is_leap_def m4 m100 m400 using assms by auto
qed


lemma day_of_year_bound:
  assumes "1 \<le> m" "m \<le> 12" "d \<le> days_in_month y m"
  shows "days_before_month y m + d \<le> (if is_leap y then 366 else 365)"
    and "days_before_month y m + d = 366 \<Longrightarrow> m = 12 \<and> d = 31"
  using assms(1,2)
  by (cases m rule: month_cases;
      use assms(3) in \<open>simp add: days_before_month_def days_in_month_def DAYS_BEFORE_MONTH_def
        DAYS_IN_MONTH_def split: if_splits\<close>)+

lemma ord2ymd_ymd2ord:
  assumes y: "1 \<le> y" and m: "1 \<le> m" "m \<le> 12" and d: "1 \<le> d" "d \<le> days_in_month y m"
  shows "ord2ymd (ymd2ord y m d) = (y, m, d)"
proof -
  obtain a b c e where parts: "y - 1 = 400 * a + 100 * b + 4 * c + e"
    and bd: "b < 4" "c < 25" "e < 4"
    by (rule year_parts)
  from y parts have yeq: "y = Suc (400 * a + 100 * b + 4 * c + e)" by simp
  have dby: "days_before_year y = 146097 * a + 36524 * b + 1461 * c + 365 * e"
    unfolding yeq using bd by (rule days_before_year_parts)
  have leap: "is_leap y \<longleftrightarrow> e = 3 \<and> (c \<noteq> 24 \<or> b = 3)"
    unfolding yeq using bd by (rule is_leap_parts)
  define doy where "doy = days_before_month y m + d"
  have doy1: "1 \<le> doy" using d(1) by (simp add: doy_def)
  have doy2: "doy \<le> (if is_leap y then 366 else 365)"
    unfolding doy_def using m d(2) by (rule day_of_year_bound)
  have ord: "ymd2ord y m d - 1
      = 146097 * int a + (36524 * int b + (1461 * int c + (365 * int e + (int doy - 1))))"
    by (simp add: ymd2ord_def dby doy_def)
  show ?thesis
  proof (cases "doy = 366")
    case True
    then have md: "m = 12" "d = 31"
      using day_of_year_bound(2)[OF m d(2)] by (simp_all add: doy_def)
    from True doy2 have L: "is_leap y" by (simp split: if_splits)
    with leap have e3: "e = 3" and cb: "c \<noteq> 24 \<or> b = 3" by simp_all
    show ?thesis
    proof (cases "c = 24")
      case True
      with cb have b3: "b = 3" by simp
      have p: "ymd2ord y m d - 1 = 146097 * int a + 146096" "(0::int) \<le> 146096" "(146096::int) < 146097"
        "(146096::int) = 36524 * 4 + 0" "(0::int) \<le> 0" "(0::int) < 36524"
        "(0::int) = 1461 * 0 + 0" "(0::int) \<le> 0" "(0::int) < 1461"
        "(0::int) = 365 * 0 + 0" "(0::int) \<le> 0" "(0::int) < 365"
        using ord True b3 e3 \<open>doy = 366\<close> by simp_all
      show ?thesis
        unfolding ord2ymd_stages[OF p] using yeq True b3 e3 md by simp
    next
      case False
      with bd have c: "c \<le> 23" by simp
      have p: "ymd2ord y m d - 1 = 146097 * int a + (36524 * int b + (1461 * int c + 1460))"
        "0 \<le> 36524 * int b + (1461 * int c + 1460)"
        "36524 * int b + (1461 * int c + 1460) < 146097"
        "36524 * int b + (1461 * int c + 1460) = 36524 * int b + (1461 * int c + 1460)"
        "0 \<le> 1461 * int c + 1460" "1461 * int c + 1460 < 36524"
        "1461 * int c + 1460 = 1461 * int c + 1460" "(0::int) \<le> 1460" "(1460::int) < 1461"
        "(1460::int) = 365 * 4 + 0" "(0::int) \<le> 0" "(0::int) < 365"
        using ord c bd e3 \<open>doy = 366\<close> by simp_all
      show ?thesis
        unfolding ord2ymd_stages[OF p] using yeq e3 md by simp
    qed
  next
    case False
    with doy2 have doy3: "doy \<le> 365" by (simp split: if_splits)
    let ?D = "int doy - 1"
    have p: "ymd2ord y m d - 1 = 146097 * int a + (36524 * int b + (1461 * int c + (365 * int e + ?D)))"
      "0 \<le> 36524 * int b + (1461 * int c + (365 * int e + ?D))"
      "36524 * int b + (1461 * int c + (365 * int e + ?D)) < 146097"
      "36524 * int b + (1461 * int c + (365 * int e + ?D))
         = 36524 * int b + (1461 * int c + (365 * int e + ?D))"
      "0 \<le> 1461 * int c + (365 * int e + ?D)" "1461 * int c + (365 * int e + ?D) < 36524"
      "1461 * int c + (365 * int e + ?D) = 1461 * int c + (365 * int e + ?D)"
      "0 \<le> 365 * int e + ?D" "365 * int e + ?D < 1461"
      "365 * int e + ?D = 365 * int e + ?D" "0 \<le> ?D" "?D < 365"
      using ord bd doy1 doy3 by simp_all
    have le: "(int e = 3 \<and> (int c \<noteq> 24 \<or> int b = 3)) = is_leap y"
      using leap by simp
    have nb: "\<not> (int e = 4 \<or> int b = 4)" using bd by simp
    have Yeq: "nat (int a * 400 + 1 + int b * 100 + int c * 4 + int e) = y"
      using yeq by simp
    show ?thesis
      unfolding ord2ymd_stages[OF p] le if_not_P[OF nb] Yeq
    proof (rule month_day)
      show "1 \<le> m" "m \<le> 12" "1 \<le> d" by fact+
      show "d \<le> (if m = 2 \<and> is_leap y then 29 else DAYS_IN_MONTH ! m)"
        using d(2) by (simp add: days_in_month_def)
      show "?D = int (DAYS_BEFORE_MONTH ! m + (if 2 < m \<and> is_leap y then 1 else 0) + d) - 1"
        by (simp add: doy_def days_before_month_def)
      show "?D < 365" using doy3 by simp
    qed
  qed
qed







text \<open>The decimal digits that \<^verbatim>\<open>str\<close> and \<^verbatim>\<open>zfill\<close> write.\<close>

lemma str_nat_small: "n < 10 \<Longrightarrow> str_nat n = [digit_char n]"
  by (subst str_nat.simps) simp

lemma str_nat_step: "10 \<le> n \<Longrightarrow> str_nat n = str_nat (n div 10) @ [digit_char (n mod 10)]"
  by (subst str_nat.simps) simp

lemma digits_2: "digits 2 n = [digit_char (n div 10 mod 10), digit_char (n mod 10)]"
  by (simp add: digits_def upt_rec)

lemma digits_4:
  "digits 4 n = [digit_char (n div 1000 mod 10), digit_char (n div 100 mod 10),
                 digit_char (n div 10 mod 10), digit_char (n mod 10)]"
  by (simp add: digits_def upt_rec)

lemma zfill_2_digits: "n < 100 \<Longrightarrow> zfill 2 (str_nat n) = digits 2 n"
proof (cases "n < 10")
  case True
  then show ?thesis by (simp add: str_nat_small zfill_def digits_2 digit_char_def)
next
  case False
  assume "n < 100"
  with False have "n div 10 < 10" "10 \<le> n" by simp_all
  then show ?thesis
    by (simp add: str_nat_step str_nat_small zfill_def digits_2)
qed

lemma str_nat_digits_4: "1000 \<le> y \<Longrightarrow> y \<le> 9999 \<Longrightarrow> str_nat y = digits 4 y"
proof -
  assume y: "1000 \<le> y" "y \<le> 9999"
  then have a: "10 \<le> y" "10 \<le> y div 10" "10 \<le> y div 10 div 10" "y div 10 div 10 div 10 < 10"
    by simp_all
  have b: "y div 10 div 10 = y div 100" "y div 10 div 10 div 10 = y div 1000"
    "y div 100 div 10 = y div 1000"
    by (simp_all add: div_mult2_eq[symmetric])
  have c: "y div 1000 mod 10 = y div 1000" using y by simp
  show ?thesis
    unfolding str_nat_step[OF a(1)] str_nat_step[OF a(2)] str_nat_step[OF a(3)] str_nat_small[OF a(4)]
    by (simp add: digits_4 b c)
qed

lemma toordinal_combine:
  "hh \<le> 23 \<Longrightarrow> mm \<le> 59 \<Longrightarrow> ss \<le> 59 \<Longrightarrow> toordinal (combine n hh mm ss) = n"
proof -
  assume r: "hh \<le> 23" "mm \<le> 59" "ss \<le> 59"
  then have "int (hh * 3600 + mm * 60 + ss) < 86400" "0 \<le> int (hh * 3600 + mm * 60 + ss)"
    by simp_all
  then show ?thesis
    unfolding combine_def toordinal_def by (simp add: div_pos_pos_trivial)
qed

lemma strftime_Ymd_date:
  assumes "datetime_new y m d hh mm ss = Inr dt" "1000 \<le> y"
  shows "strftime_Ymd dt = YYYYMMDD y m d"
proof -
  from assms(1) have r: "1 \<le> y" "y \<le> 9999" "1 \<le> m" "m \<le> 12" "1 \<le> d" "d \<le> days_in_month y m"
      "hh \<le> 23" "mm \<le> 59" "ss \<le> 59"
    and dt: "dt = combine (ymd2ord y m d) hh mm ss"
    by (auto simp: datetime_new_def split: if_splits)
  have "d \<le> 31"
    using r(3,4,6)
    by (cases m rule: month_cases) (simp_all add: days_in_month_def DAYS_IN_MONTH_def split: if_splits)
  then have d: "d < 100" by simp
  from r(4) have m: "m < 100" by simp
  have "ord2ymd (toordinal dt) = (y, m, d)"
    unfolding dt toordinal_combine[OF r(7,8,9)] using r(1,3,4,5,6) by (rule ord2ymd_ymd2ord)
  then show ?thesis
    by (simp add: strftime_Ymd_def YYYYMMDD_def str_nat_digits_4[OF assms(2) r(2)]
        zfill_2_digits[OF m] zfill_2_digits[OF d])
qed





subsection \<open>The text of a command\<close>




text \<open>
  The row \<^verbatim>\<open>0999-01-02 00:00:00\<close> is accepted by \<^verbatim>\<open>strptime\<close>, and the name of its partition
  is \<^verbatim>\<open>p9990102\<close>: seven digits, not the date as \<^verbatim>\<open>YYYYMMDD\<close>, which is \<^verbatim>\<open>09990102\<close>.
\<close>

theorem partition_name_before_year_1000:
  "strptime ''0999-01-02 00:00:00'' = Inr (midnight 999 1 2)
   \<and> generate_partition_name (midnight 999 1 2) = ''p9990102''
   \<and> YYYYMMDD 999 1 2 = ''09990102''"
proof (intro conjI)
  show "strptime ''0999-01-02 00:00:00'' = Inr (midnight 999 1 2)"
    by (simp add: strptime_eval string_eval calendar_eval)
  show "generate_partition_name (midnight 999 1 2) = ''p9990102''"
    by (simp add: generate_partition_name_def strftime_Ymd_def str_nat.simps calendar_eval string_eval)
  show "YYYYMMDD 999 1 2 = ''09990102''"
    by (simp add: YYYYMMDD_def digits_def upt_rec digit_char_def)
qed

subsection \<open>The scan of the lines\<close>

lemma py_strip_prefix:
  "py_strip s @ rev (takeWhile py_isspace (rev (dropWhile py_isspace s))) = dropWhile py_isspace s"
proof -
  have "rev (takeWhile py_isspace (rev (dropWhile py_isspace s)) @ dropWhile py_isspace (rev (dropWhile py_isspace s)))
      = dropWhile py_isspace s"
    by (simp only: takeWhile_dropWhile_id rev_rev_ident)
  then show ?thesis unfolding py_strip_def rev_append .
qed

lemma py_strip_hd: "py_strip s \<noteq> [] \<Longrightarrow> \<not> py_isspace (hd (py_strip s))"
proof -
  assume ne: "py_strip s \<noteq> []"
  then have "hd (py_strip s) = hd (dropWhile py_isspace s)"
    using py_strip_prefix[of s] by (metis hd_append2)
  moreover from ne have "dropWhile py_isspace s \<noteq> []"
    using py_strip_prefix[of s] by (metis append_is_Nil_conv)
  ultimately show ?thesis by (simp add: hd_dropWhile)
qed

lemma py_strip_not_startswith_space: "py_strip s \<noteq> [] \<Longrightarrow> \<not> startswith (py_strip s) '' ''"
proof
  assume ne: "py_strip s \<noteq> []" and sw: "startswith (py_strip s) '' ''"
  from ne obtain c cs where c: "py_strip s = c # cs" by (cases "py_strip s") auto
  with sw have "c = CHR '' ''" by (simp add: startswith_def)
  with py_strip_hd[OF ne] c show False by (simp add: py_isspace_def)
qed

lemma match_date_nonempty: "match_date s \<Longrightarrow> s \<noteq> []"
  by (auto simp: match_date_def)

lemma parse_lines_blank:
  "py_strip raw = [] \<Longrightarrow> parse_lines (raw # rest) st = parse_lines rest st"
  by simp

lemma parse_lines_data:
  "match_date (py_strip raw) \<Longrightarrow>
   parse_lines (raw # rest) st = parse_lines rest (data_line (py_strip raw) st)"
  by (simp add: Let_def match_date_nonempty)

lemma parse_lines_header:
  "header_line raw \<Longrightarrow> parse_lines (raw # rest) st = parse_lines rest (save_previous st)"
  by (simp add: header_line_def Let_def py_strip_not_startswith_space)

lemma parse_lines_table:
  "table_name_line raw \<Longrightarrow>
   parse_lines (raw # rest) st
     = parse_lines (after_table_name rest) ((save_previous st)\<lparr>current_table := Some (py_strip raw)\<rparr>)"
  by (cases rest)
     (simp_all add: table_name_line_def Let_def py_strip_not_startswith_space after_table_name_def)

lemma line_cases:
  obtains "py_strip raw = []" | "is_data_line raw" | "header_line raw" | "table_name_line raw"
  unfolding is_data_line_def header_line_def table_name_line_def by blast


declare parse_lines.simps(2) [simp del]

lemma after_table_name_length: "length (after_table_name rest) \<le> length rest"
  by (cases rest) (simp_all add: after_table_name_def)

lemma after_table_name_append:
  "ys = [] \<or> \<not> py_in ''from_unixtime'' (py_lower (hd ys)) \<Longrightarrow>
   after_table_name (rest @ ys) = after_table_name rest @ ys"
  by (cases rest; cases ys) (simp_all add: after_table_name_def)

lemma parse_lines_append:
  "ys = [] \<or> \<not> py_in ''from_unixtime'' (py_lower (hd ys)) \<Longrightarrow>
   parse_lines (xs @ ys) st = parse_lines ys (parse_lines xs st)"
proof (induction "length xs" arbitrary: xs st rule: less_induct)
  case less
  show ?case
  proof (cases xs)
    case Nil
    then show ?thesis by simp
  next
    case (Cons raw rest)
    have IH: "length zs \<le> length rest \<Longrightarrow>
        parse_lines (zs @ ys) st' = parse_lines ys (parse_lines zs st')" for zs st'
      using less.hyps[of zs st'] less.prems Cons by simp
    show ?thesis
    proof (cases raw rule: line_cases)
      case 1
      then show ?thesis using Cons IH[of rest st] by (simp add: parse_lines_blank)
    next
      case 2
      then show ?thesis using Cons IH[of rest]
        by (simp add: parse_lines_data is_data_line_def)
    next
      case 3
      then show ?thesis using Cons IH[of rest] by (simp add: parse_lines_header)
    next
      case 4
      then show ?thesis
        using Cons IH[OF after_table_name_length[of rest]] after_table_name_append[OF less.prems, of rest]
        by (simp add: parse_lines_table)
    qed
  qed
qed


lemma data_line_record_tuple: "data_line line st = record_tuple line st"
  by (simp add: data_line_def record_tuple_def data_tuple_def Let_def split: list.splits)

lemma parse_lines_data_run:
  "\<forall>raw \<in> set ds. is_data_line raw \<Longrightarrow>
   parse_lines ds st = st\<lparr>current_data := current_data st @ tuples_of ds\<rparr>"
proof (induction ds arbitrary: st)
  case Nil
  show ?case by (simp add: tuples_of_def List.map_filter_simps)
next
  case (Cons d ds)
  then show ?case
    by (simp add: parse_lines_data is_data_line_def data_line_record_tuple record_tuple_def
        tuples_of_def List.map_filter_simps split: option.splits)
qed

text \<open>
  C6 (as amended). For every line starting with a date that the scan reaches, the parser
  appends to \<^verbatim>\<open>current_data\<close> the tuple of its tokens when there are at least four (the
  first two joined by a space, the third, the fourth, and the fifth or \<^verbatim>\<open>"0"\<close>) and
  nothing otherwise; a run of such lines appends their tuples in order. The scan reaches
  every line but the one that follows a table name and contains \<^verbatim>\<open>from_unixtime\<close>.
\<close>

theorem data_line_recorded:
  "(is_data_line raw \<longrightarrow>
      parse_lines (raw # rest) st = parse_lines rest (record_tuple (py_strip raw) st))
   \<and> ((\<forall>raw \<in> set ds. is_data_line raw) \<longrightarrow>
      parse_lines ds st = st\<lparr>current_data := current_data st @ tuples_of ds\<rparr>)
   \<and> data_tuple ''2025-10-09 00:00:00 1759964400 90''
       = Some [''2025-10-09 00:00:00'', ''1759964400'', ''90'', ''0'']
   \<and> data_tuple ''2025-10-09 00:00:00 1759964400 90 1250 x''
       = Some [''2025-10-09 00:00:00'', ''1759964400'', ''90'', ''1250'']
   \<and> data_tuple ''2025-10-09 00:00:00 1759964400'' = None"
proof (intro conjI impI)
  assume "is_data_line raw"
  then show "parse_lines (raw # rest) st = parse_lines rest (record_tuple (py_strip raw) st)"
    by (simp add: parse_lines_data is_data_line_def data_line_record_tuple)
next
  assume "\<forall>raw \<in> set ds. is_data_line raw"
  then show "parse_lines ds st = st\<lparr>current_data := current_data st @ tuples_of ds\<rparr>"
    by (rule parse_lines_data_run)
qed (simp_all add: data_tuple_def py_split_def py_isspace_def)

text \<open>Evaluation of the scan on literal lines.\<close>

lemmas parse_eval =
  parse_text_def initial_state_def save_last_def save_previous_def data_line_def match_date_def
  is_header_def parse_lines.simps(2) Let_def

theorem data_line_recorded_witness:
  "is_data_line ''2025-10-09 00:00:00 1759964400 90''
   \<and> is_data_line ''2025-10-08 00:00:00 1759878000 89 12 x''
   \<and> parse_lines [''2025-10-09 00:00:00 1759964400 90''] initial_state
       = \<lparr>tables_data = [], current_table = None,
          current_data = [[''2025-10-09 00:00:00'', ''1759964400'', ''90'', ''0'']]\<rparr>
   \<and> parse_lines [''2025-10-09 00:00:00 1759964400 90'', ''2025-10-08 00:00:00 1759878000 89 12 x'']
        initial_state
       = \<lparr>tables_data = [], current_table = None,
          current_data = [[''2025-10-09 00:00:00'', ''1759964400'', ''90'', ''0''],
                          [''2025-10-08 00:00:00'', ''1759878000'', ''89'', ''12'']]\<rparr>"
proof -
  let ?a = "''2025-10-09 00:00:00 1759964400 90''"
  let ?b = "''2025-10-08 00:00:00 1759878000 89 12 x''"
  have d: "is_data_line ?a" "is_data_line ?b"
    by (simp_all add: is_data_line_def match_date_def string_eval)
  have ta: "data_tuple (py_strip ?a) = Some [''2025-10-09 00:00:00'', ''1759964400'', ''90'', ''0'']"
    by (simp add: data_tuple_def string_eval)
  have tb: "tuples_of [?a, ?b]
      = [[''2025-10-09 00:00:00'', ''1759964400'', ''90'', ''0''],
         [''2025-10-08 00:00:00'', ''1759878000'', ''89'', ''12'']]"
    by (simp add: tuples_of_def List.map_filter_simps data_tuple_def string_eval)
  from d(1) data_line_recorded[of ?a "[]" initial_state "[?a, ?b]"]
  have one: "parse_lines [?a] initial_state = parse_lines [] (record_tuple (py_strip ?a) initial_state)"
    by blast
  have "\<forall>raw \<in> set [?a, ?b]. is_data_line raw"
    using d by simp
  with data_line_recorded[of ?a "[]" initial_state "[?a, ?b]"]
  have two: "parse_lines [?a, ?b] initial_state
      = initial_state\<lparr>current_data := current_data initial_state @ tuples_of [?a, ?b]\<rparr>"
    by blast
  from d show ?thesis
    unfolding one two tb by (simp add: record_tuple_def ta initial_state_def)
qed

text \<open>
  A data line with five tokens that directly follows a table name and contains
  \<^verbatim>\<open>from_unixtime\<close> is taken for the column header and skipped: no tuple is recorded.
\<close>

theorem data_line_after_table_name_skipped:
  "is_data_line ''2025-10-09 00:00:00 1759964400 90 from_unixtime\<newline>''
   \<and> length (py_split ''2025-10-09 00:00:00 1759964400 90 from_unixtime\<newline>'') = 5
   \<and> parse_lines [''t1\<newline>'', ''2025-10-09 00:00:00 1759964400 90 from_unixtime\<newline>'']
        initial_state
       = \<lparr>tables_data = [], current_table = Some ''t1'', current_data = []\<rparr>
   \<and> parse_text [''t1\<newline>'', ''2025-10-09 00:00:00 1759964400 90 from_unixtime\<newline>''] = []"
  by (simp add: is_data_line_def parse_eval string_eval)

lemma save_previous_nothing:
  "current_table st = None \<or> current_data st = [] \<Longrightarrow> save_previous st = st"
  by (auto simp: save_previous_def split: option.splits)

lemma save_previous_pending:
  "current_table st = Some t \<Longrightarrow> t \<noteq> [] \<Longrightarrow> current_data st \<noteq> [] \<Longrightarrow>
   save_previous st
     = st\<lparr>tables_data := AList.update t (current_data st) (tables_data st), current_data := []\<rparr>"
  by (simp add: save_previous_def)

lemma parse_lines_table_header:
  assumes "table_name_line raw" "header_line nxt" "current_data (save_previous st) = []"
  shows "parse_lines (raw # nxt # rest) st
     = parse_lines rest ((save_previous st)\<lparr>current_table := Some (py_strip raw)\<rparr>)"
proof (cases "py_in ''from_unixtime'' (py_lower nxt)")
  case True
  with assms(1) show ?thesis by (simp add: parse_lines_table after_table_name_def)
next
  case False
  let ?st2 = "(save_previous st)\<lparr>current_table := Some (py_strip raw)\<rparr>"
  have "save_previous ?st2 = ?st2"
    using assms(3) by (intro save_previous_nothing) simp
  with False assms(1,2) show ?thesis
    by (simp add: parse_lines_table after_table_name_def parse_lines_header)
qed

text \<open>
  C7 (as amended). A non-empty line that does not start with a date is a header when it
  contains \<^verbatim>\<open>from_unixtime\<close> or \<^verbatim>\<open>partition_description\<close> in any case, and a table name
  otherwise. In both cases the pending records of the open table are saved first (the
  table keeps them as its value and the buffer restarts empty; nothing happens when no
  table is open or the buffer is empty). A header is then skipped; a table name becomes the
  current table, and the scan goes on behind the next line when that line contains
  \<^verbatim>\<open>from_unixtime\<close>. A header that directly follows a table name is skipped and leaves the
  state as the table name left it, when no records were pending without a table.
\<close>

theorem non_date_line_scanned:
  "(header_line raw \<longrightarrow> parse_lines (raw # rest) st = parse_lines rest (save_previous st))
   \<and> (table_name_line raw \<longrightarrow>
        parse_lines (raw # rest) st
          = parse_lines (after_table_name rest)
              ((save_previous st)\<lparr>current_table := Some (py_strip raw)\<rparr>))
   \<and> (current_table st = None \<or> current_data st = [] \<longrightarrow> save_previous st = st)
   \<and> (current_table st = Some t \<and> t \<noteq> [] \<and> current_data st \<noteq> [] \<longrightarrow>
        save_previous st
          = st\<lparr>tables_data := AList.update t (current_data st) (tables_data st),
               current_data := []\<rparr>)
   \<and> (table_name_line raw \<and> header_line nxt \<and> current_data (save_previous st) = [] \<longrightarrow>
        parse_lines (raw # nxt # rest) st
          = parse_lines rest ((save_previous st)\<lparr>current_table := Some (py_strip raw)\<rparr>))"
proof (intro conjI impI)
  assume "header_line raw"
  then show "parse_lines (raw # rest) st = parse_lines rest (save_previous st)"
    by (rule parse_lines_header)
next
  assume "table_name_line raw"
  then show "parse_lines (raw # rest) st
          = parse_lines (after_table_name rest)
              ((save_previous st)\<lparr>current_table := Some (py_strip raw)\<rparr>)"
    by (rule parse_lines_table)
next
  assume "current_table st = None \<or> current_data st = []"
  then show "save_previous st = st" by (rule save_previous_nothing)
next
  assume "current_table st = Some t \<and> t \<noteq> [] \<and> current_data st \<noteq> []"
  then show "save_previous st
          = st\<lparr>tables_data := AList.update t (current_data st) (tables_data st),
               current_data := []\<rparr>"
    by (simp add: save_previous_pending)
next
  assume "table_name_line raw \<and> header_line nxt \<and> current_data (save_previous st) = []"
  then show "parse_lines (raw # nxt # rest) st
          = parse_lines rest ((save_previous st)\<lparr>current_table := Some (py_strip raw)\<rparr>)"
    by (simp add: parse_lines_table_header)
qed

theorem non_date_line_scanned_witness:
  "header_line ''PARTITION_DESCRIPTION''
   \<and> table_name_line ''t2''
   \<and> save_previous initial_state = initial_state
   \<and> save_previous
        \<lparr>tables_data = [], current_table = Some ''t1'',
         current_data = [[''2025-10-09 00:00:00'', ''1759964400'', ''90'', ''0'']]\<rparr>
       = \<lparr>tables_data = [(''t1'', [[''2025-10-09 00:00:00'', ''1759964400'', ''90'', ''0'']])],
          current_table = Some ''t1'', current_data = []\<rparr>
   \<and> parse_lines [''PARTITION_DESCRIPTION'']
        \<lparr>tables_data = [], current_table = Some ''t1'',
         current_data = [[''2025-10-09 00:00:00'', ''1759964400'', ''90'', ''0'']]\<rparr>
       = \<lparr>tables_data = [(''t1'', [[''2025-10-09 00:00:00'', ''1759964400'', ''90'', ''0'']])],
          current_table = Some ''t1'', current_data = []\<rparr>
   \<and> parse_lines [''t2'', ''from_unixtime(PARTITION_DESCRIPTION)'']
        \<lparr>tables_data = [], current_table = Some ''t1'',
         current_data = [[''2025-10-09 00:00:00'', ''1759964400'', ''90'', ''0'']]\<rparr>
       = \<lparr>tables_data = [(''t1'', [[''2025-10-09 00:00:00'', ''1759964400'', ''90'', ''0'']])],
          current_table = Some ''t2'', current_data = []\<rparr>
   \<and> parse_lines [''t2'', ''PARTITION_DESCRIPTION'']
        \<lparr>tables_data = [], current_table = Some ''t1'',
         current_data = [[''2025-10-09 00:00:00'', ''1759964400'', ''90'', ''0'']]\<rparr>
       = \<lparr>tables_data = [(''t1'', [[''2025-10-09 00:00:00'', ''1759964400'', ''90'', ''0'']])],
          current_table = Some ''t2'', current_data = []\<rparr>"
proof -
  let ?st = "\<lparr>tables_data = [], current_table = Some ''t1'',
         current_data = [[''2025-10-09 00:00:00'', ''1759964400'', ''90'', ''0'']]\<rparr>"
  let ?sv = "\<lparr>tables_data = [(''t1'', [[''2025-10-09 00:00:00'', ''1759964400'', ''90'', ''0'']])],
          current_table = Some ''t1'', current_data = []\<rparr>"
  have h: "header_line ''PARTITION_DESCRIPTION''"
    by (simp add: header_line_def match_date_def is_header_def string_eval)
  have t: "table_name_line ''t2''"
    by (simp add: table_name_line_def match_date_def is_header_def string_eval)
  have "current_table initial_state = None \<or> current_data initial_state = []"
    by (simp add: initial_state_def)
  with non_date_line_scanned[of _ _ initial_state]
  have n: "save_previous initial_state = initial_state"
    by blast
  have "current_table ?st = Some ''t1'' \<and> ''t1'' \<noteq> [] \<and> current_data ?st \<noteq> []"
    by simp
  with non_date_line_scanned[of _ _ ?st "''t1''"]
  have "save_previous ?st
      = ?st\<lparr>tables_data := AList.update ''t1'' (current_data ?st) (tables_data ?st),
            current_data := []\<rparr>"
    by blast
  then have s: "save_previous ?st = ?sv"
    by simp
  from h non_date_line_scanned[of "''PARTITION_DESCRIPTION''" "[]" ?st]
  have a: "parse_lines [''PARTITION_DESCRIPTION''] ?st = parse_lines [] (save_previous ?st)"
    by blast
  from t non_date_line_scanned[of "''t2''" "[''from_unixtime(PARTITION_DESCRIPTION)'']" ?st]
  have b: "parse_lines [''t2'', ''from_unixtime(PARTITION_DESCRIPTION)''] ?st
      = parse_lines (after_table_name [''from_unixtime(PARTITION_DESCRIPTION)''])
          ((save_previous ?st)\<lparr>current_table := Some (py_strip ''t2'')\<rparr>)"
    by blast
  have c: "after_table_name [''from_unixtime(PARTITION_DESCRIPTION)''] = []"
    by (simp add: after_table_name_def string_eval)
  have "table_name_line ''t2'' \<and> header_line ''PARTITION_DESCRIPTION''
      \<and> current_data (save_previous ?st) = []"
    using t h unfolding s by simp
  with non_date_line_scanned[of "''t2''" "[]" ?st _ "''PARTITION_DESCRIPTION''"]
  have d: "parse_lines [''t2'', ''PARTITION_DESCRIPTION''] ?st
      = parse_lines [] ((save_previous ?st)\<lparr>current_table := Some (py_strip ''t2'')\<rparr>)"
    by blast
  from h t n s show ?thesis unfolding a b c d s by (simp add: string_eval)
qed

text \<open>
  A header in the middle of the rows of a table is not merely skipped: the rows before it
  are saved at the header and then replaced by the rows after it, so the result differs
  from the one without the header.
\<close>

theorem header_line_saves_pending:
  "header_line ''PARTITION_DESCRIPTION\<newline>''
   \<and> parse_text [''t1\<newline>'', ''2025-10-08 00:00:00 1759878000 89 0\<newline>'',
                 ''PARTITION_DESCRIPTION\<newline>'', ''2025-10-09 00:00:00 1759964400 90 0\<newline>'']
       = [(''t1'', [[''2025-10-09 00:00:00'', ''1759964400'', ''90'', ''0'']])]
   \<and> parse_text [''t1\<newline>'', ''2025-10-08 00:00:00 1759878000 89 0\<newline>'',
                 ''2025-10-09 00:00:00 1759964400 90 0\<newline>'']
       = [(''t1'', [[''2025-10-08 00:00:00'', ''1759878000'', ''89'', ''0''],
                   [''2025-10-09 00:00:00'', ''1759964400'', ''90'', ''0'']])]"
  by (simp add: header_line_def parse_eval string_eval Let_def)

subsection \<open>Facts about \<^verbatim>\<open>strip\<close>, \<^verbatim>\<open>in\<close> and the scan as a whole\<close>

lemma startswith_iff: "startswith s pre \<longleftrightarrow> (\<exists>vs. s = pre @ vs)"
proof
  assume "startswith s pre"
  then have "s = pre @ drop (length pre) s"
    by (metis append_take_drop_id startswith_def)
  then show "\<exists>vs. s = pre @ vs" ..
next
  assume "\<exists>vs. s = pre @ vs"
  then show "startswith s pre" by (auto simp: startswith_def)
qed

lemma py_in_iff: "py_in sub s \<longleftrightarrow> (\<exists>us vs. s = us @ sub @ vs)"
proof (induction s)
  case Nil
  show ?case by auto
next
  case (Cons c cs)
  show ?case
  proof
    assume "py_in sub (c # cs)"
    then consider "startswith (c # cs) sub" | "py_in sub cs" by auto
    then show "\<exists>us vs. c # cs = us @ sub @ vs"
    proof cases
      case 1
      then obtain vs where "c # cs = sub @ vs" by (auto simp: startswith_iff)
      then have "c # cs = [] @ sub @ vs" by simp
      then show ?thesis by blast
    next
      case 2
      with Cons obtain us vs where "cs = us @ sub @ vs" by auto
      then have "c # cs = (c # us) @ sub @ vs" by simp
      then show ?thesis by blast
    qed
  next
    assume "\<exists>us vs. c # cs = us @ sub @ vs"
    then obtain us vs where e: "c # cs = us @ sub @ vs" by auto
    show "py_in sub (c # cs)"
    proof (cases us)
      case Nil
      with e have "startswith (c # cs) sub" by (auto simp: startswith_iff)
      then show ?thesis by simp
    next
      case (Cons u us')
      with e have "cs = us' @ sub @ vs" by simp
      with Cons.IH show ?thesis by auto
    qed
  qed
qed

lemma py_strip_keeps_word:
  assumes "sub \<noteq> []" "\<not> py_isspace (hd sub)" "\<not> py_isspace (last sub)"
  shows "py_strip (us @ sub @ vs)
    = dropWhile py_isspace us @ sub @ rev (dropWhile py_isspace (rev vs))"
proof -
  obtain c cs where sub: "sub = c # cs" using assms(1) by (cases sub) auto
  have 1: "dropWhile py_isspace (us @ sub @ vs) = dropWhile py_isspace us @ sub @ vs"
    using assms(2) unfolding sub by (simp add: dropWhile_append3)
  have r: "rev sub = last sub # rev (butlast sub)"
    using assms(1) by (metis append_butlast_last_id rev.simps(2) rev_append rev_rev_ident
        rev_singleton_conv append_Cons append_Nil)
  have "dropWhile py_isspace (rev (dropWhile py_isspace us @ sub @ vs))
      = dropWhile py_isspace (rev vs @ last sub # (rev (butlast sub) @ rev (dropWhile py_isspace us)))"
    by (simp add: r)
  also have "\<dots> = dropWhile py_isspace (rev vs) @ last sub # (rev (butlast sub) @ rev (dropWhile py_isspace us))"
    using assms(3) by (rule dropWhile_append3)
  finally have "rev (dropWhile py_isspace (rev (dropWhile py_isspace us @ sub @ vs)))
      = dropWhile py_isspace us @ (butlast sub @ [last sub]) @ rev (dropWhile py_isspace (rev vs))"
    by simp
  then show ?thesis
    unfolding py_strip_def 1 using assms(1) by simp
qed

lemma py_in_strip:
  assumes "sub \<noteq> []" "\<not> py_isspace (hd sub)" "\<not> py_isspace (last sub)" "py_in sub s"
  shows "py_in sub (py_strip s)"
proof -
  from assms(4) obtain us vs where "s = us @ sub @ vs" by (auto simp: py_in_iff)
  then have "py_strip s = dropWhile py_isspace us @ sub @ rev (dropWhile py_isspace (rev vs))"
    using py_strip_keeps_word[OF assms(1-3)] by simp
  then show ?thesis unfolding py_in_iff by blast
qed

lemma lower_char_isspace: "py_isspace (lower_char c) = py_isspace c"
  by (simp add: lower_char_def py_isspace_def)

lemma py_lower_strip: "py_lower (py_strip s) = py_strip (py_lower s)"
proof -
  have d: "map lower_char (dropWhile py_isspace xs) = dropWhile py_isspace (map lower_char xs)" for xs
    by (induction xs) (simp_all add: lower_char_isspace)
  show ?thesis
    by (simp add: py_lower_def py_strip_def rev_map[symmetric] d)
qed

lemma from_unixtime_strip:
  "py_in ''from_unixtime'' (py_lower raw) \<Longrightarrow> py_in ''from_unixtime'' (py_lower (py_strip raw))"
  unfolding py_lower_strip by (rule py_in_strip) (simp_all add: py_isspace_def)

lemma table_name_line_no_lookahead:
  "table_name_line raw \<Longrightarrow> \<not> py_in ''from_unixtime'' (py_lower raw)"
  using from_unixtime_strip[of raw] by (auto simp: table_name_line_def is_header_def)


lemma parse_scan_induct [consumes 0, case_names Nil blank data header table]:
  assumes "\<And>st. P [] st"
    and "\<And>raw rest st. py_strip raw = [] \<Longrightarrow> P rest st \<Longrightarrow> P (raw # rest) st"
    and "\<And>raw rest st. is_data_line raw \<Longrightarrow> P rest (record_tuple (py_strip raw) st)
          \<Longrightarrow> P (raw # rest) st"
    and "\<And>raw rest st. header_line raw \<Longrightarrow> P rest (save_previous st) \<Longrightarrow> P (raw # rest) st"
    and "\<And>raw rest st. table_name_line raw
          \<Longrightarrow> P (after_table_name rest) ((save_previous st)\<lparr>current_table := Some (py_strip raw)\<rparr>)
          \<Longrightarrow> P (raw # rest) st"
  shows "P ls st"
proof (induction "length ls" arbitrary: ls st rule: less_induct)
  case (less ls st)
  show ?case
  proof (cases ls)
    case Nil
    then show ?thesis by (simp add: assms(1))
  next
    case (Cons raw rest)
    have IH: "length zs \<le> length rest \<Longrightarrow> P zs st'" for zs st'
      using less(1)[of zs st'] Cons by simp
    have "P (raw # rest) st"
    proof (cases raw rule: line_cases)
      case 1
      show ?thesis by (rule assms(2)[OF 1 IH]) simp
    next
      case 2
      show ?thesis by (rule assms(3)[OF 2 IH]) simp
    next
      case 3
      show ?thesis by (rule assms(4)[OF 3 IH]) simp
    next
      case 4
      show ?thesis by (rule assms(5)[OF 4 IH]) (rule after_table_name_length)
    qed
    then show ?thesis by (simp add: Cons)
  qed
qed

lemma parse_lines_data': 
  "is_data_line raw \<Longrightarrow> parse_lines (raw # rest) st = parse_lines rest (record_tuple (py_strip raw) st)"
  by (simp add: parse_lines_data is_data_line_def data_line_record_tuple)

lemma update_entries:
  "kv \<in> set (AList.update k v al) \<Longrightarrow> kv = (k, v) \<or> kv \<in> set al"
  by (induction al) (auto split: if_splits)

lemma save_previous_values:
  "values_nonempty (tables_data st) \<Longrightarrow> values_nonempty (tables_data (save_previous st))"
  by (auto simp: values_nonempty_def save_previous_def split: option.splits dest!: update_entries)

lemma record_tuple_fields [simp]:
  "tables_data (record_tuple line st) = tables_data st"
  "current_table (record_tuple line st) = current_table st"
  by (simp_all add: record_tuple_def split: option.splits)

lemma save_previous_table [simp]: "current_table (save_previous st) = current_table st"
  by (simp add: save_previous_def split: option.splits)

lemma parse_lines_values:
  "values_nonempty (tables_data st) \<Longrightarrow> values_nonempty (tables_data (parse_lines ls st))"
proof (induction ls st rule: parse_scan_induct)
  case (Nil st)
  then show ?case by simp
next
  case (blank raw rest st)
  then show ?case by (simp add: parse_lines_blank)
next
  case (data raw rest st)
  then show ?case by (simp add: parse_lines_data')
next
  case (header raw rest st)
  then show ?case by (simp add: parse_lines_header save_previous_values)
next
  case (table raw rest st)
  then show ?case by (simp add: parse_lines_table save_previous_values)
qed

lemma save_last_eq: "save_last st = tables_data (save_previous st)"
  by (simp add: save_last_def save_previous_def split: option.splits)

lemma parse_text_values: "values_nonempty (parse_text ls)"
  unfolding parse_text_def save_last_eq
  by (intro save_previous_values parse_lines_values) (simp add: initial_state_def values_nonempty_def)

lemma parse_lines_no_data:
  "\<forall>l \<in> set ls. \<not> is_data_line l \<Longrightarrow> current_data st = [] \<Longrightarrow>
   current_data (parse_lines ls st) = [] \<and> tables_data (parse_lines ls st) = tables_data st"
proof (induction ls st rule: parse_scan_induct)
  case (Nil st)
  then show ?case by simp
next
  case (blank raw rest st)
  then show ?case by (simp add: parse_lines_blank)
next
  case (data raw rest st)
  then show ?case by simp
next
  case (header raw rest st)
  then show ?case by (simp add: parse_lines_header save_previous_nothing)
next
  case (table raw rest st)
  have "set (after_table_name rest) \<subseteq> set rest"
    by (cases rest) (auto simp: after_table_name_def)
  with table show ?case by (auto simp: parse_lines_table save_previous_nothing)
qed

lemma parse_text_no_data: "\<forall>l \<in> set ls. \<not> is_data_line l \<Longrightarrow> parse_text ls = []"
  using parse_lines_no_data[of ls initial_state]
  by (simp add: parse_text_def save_last_eq save_previous_nothing initial_state_def)

lemma not_table_name_line:
  "py_strip raw = [] \<Longrightarrow> \<not> table_name_line raw"
  "is_data_line raw \<Longrightarrow> \<not> table_name_line raw"
  "header_line raw \<Longrightarrow> \<not> table_name_line raw"
  by (auto simp: table_name_line_def is_data_line_def header_line_def)

lemma parse_lines_table_open:
  "current_table st \<noteq> None \<or> (\<exists>l \<in> set ls. table_name_line l) \<Longrightarrow>
   current_table (parse_lines ls st) \<noteq> None"
proof (induction ls st rule: parse_scan_induct)
  case (Nil st)
  then show ?case by simp
next
  case (blank raw rest st)
  then show ?case by (auto simp: parse_lines_blank not_table_name_line)
next
  case (data raw rest st)
  then show ?case by (auto simp: parse_lines_data' not_table_name_line)
next
  case (header raw rest st)
  then show ?case by (auto simp: parse_lines_header not_table_name_line)
next
  case (table raw rest st)
  then show ?case by (simp add: parse_lines_table)
qed

lemma table_named_steps [simp]:
  "table_named (record_tuple line st) = table_named st"
  "table_named (save_previous st) = table_named st"
  "table_named (st\<lparr>current_table := Some t\<rparr>) = (t \<noteq> [])"
  unfolding table_named_def by simp_all

lemma parse_lines_table_named: "table_named st \<Longrightarrow> table_named (parse_lines ls st)"
proof (induction ls st rule: parse_scan_induct)
  case (Nil st)
  then show ?case by simp
next
  case (blank raw rest st)
  then show ?case by (simp add: parse_lines_blank)
next
  case (data raw rest st)
  then show ?case by (simp add: parse_lines_data')
next
  case (header raw rest st)
  then show ?case by (simp add: parse_lines_header)
next
  case (table raw rest st)
  then show ?case by (simp add: parse_lines_table table_name_line_def)
qed

lemma save_previous_open:
  "table_named st \<Longrightarrow> current_table st \<noteq> None \<Longrightarrow> current_data (save_previous st) = []"
proof -
  assume n: "table_named st" and o: "current_table st \<noteq> None"
  then obtain t where t: "current_table st = Some t" "t \<noteq> []"
    unfolding table_named_def by blast
  then show ?thesis by (simp add: save_previous_def)
qed

lemma nothing_carried:
  assumes "(\<exists>l \<in> set pre. table_name_line l) \<or> (\<forall>l \<in> set pre. \<not> is_data_line l)"
  shows "current_data (save_previous (parse_lines pre initial_state)) = []"
  using assms
proof
  assume "\<exists>l \<in> set pre. table_name_line l"
  then have "current_table (parse_lines pre initial_state) \<noteq> None"
    by (intro parse_lines_table_open) simp
  moreover have "table_named (parse_lines pre initial_state)"
    by (intro parse_lines_table_named) (simp add: table_named_def initial_state_def)
  ultimately show ?thesis by (intro save_previous_open)
next
  assume "\<forall>l \<in> set pre. \<not> is_data_line l"
  then have "current_data (parse_lines pre initial_state) = []"
    using parse_lines_no_data[of pre initial_state] by (simp add: initial_state_def)
  then show ?thesis by (simp add: save_previous_nothing)
qed

lemma parse_lines_headers_run:
  "\<forall>h \<in> set hs. py_strip h = [] \<or> header_line h \<Longrightarrow> current_data st = [] \<Longrightarrow>
   parse_lines (hs @ post) st = parse_lines post st"
  by (induction hs) (auto simp: parse_lines_blank parse_lines_header save_previous_nothing)

lemma after_table_name_headers:
  assumes "\<forall>h \<in> set hs. py_strip h = [] \<or> header_line h" "current_data st = []"
    "post = [] \<or> table_name_line (hd post)"
  shows "parse_lines (after_table_name (hs @ post)) st = parse_lines post st"
proof (cases hs)
  case Nil
  with assms(3) show ?thesis
    by (cases post) (auto simp: after_table_name_def dest: table_name_line_no_lookahead)
next
  case (Cons h hs')
  show ?thesis
  proof (cases "py_in ''from_unixtime'' (py_lower h)")
    case True
    with Cons have "after_table_name (hs @ post) = hs' @ post"
      by (simp add: after_table_name_def)
    with assms(1,2) Cons show ?thesis by (simp add: parse_lines_headers_run)
  next
    case False
    with Cons have "after_table_name (hs @ post) = hs @ post"
      by (simp add: after_table_name_def)
    with assms(1,2) show ?thesis by (simp add: parse_lines_headers_run)
  qed
qed

lemma table_without_data:
  assumes T: "table_name_line T"
    and hs: "\<forall>h \<in> set hs. py_strip h = [] \<or> header_line h"
    and post: "post = [] \<or> table_name_line (hd post)"
    and pre: "(\<exists>l \<in> set pre. table_name_line l) \<or> (\<forall>l \<in> set pre. \<not> is_data_line l)"
  shows "parse_text (pre @ T # hs @ post) = parse_text (pre @ post)"
proof -
  let ?st = "parse_lines pre initial_state"
  let ?st2 = "(save_previous ?st)\<lparr>current_table := Some (py_strip T)\<rparr>"
  have empty: "current_data (save_previous ?st) = []"
    using pre by (rule nothing_carried)
  have "parse_lines (pre @ T # hs @ post) initial_state = parse_lines (T # hs @ post) ?st"
    using table_name_line_no_lookahead[OF T] by (intro parse_lines_append) simp
  also have "\<dots> = parse_lines (after_table_name (hs @ post)) ?st2"
    using T by (rule parse_lines_table)
  also have "\<dots> = parse_lines post ?st2"
    using hs _ post by (rule after_table_name_headers) (simp add: empty)
  finally have lhs: "parse_lines (pre @ T # hs @ post) initial_state = parse_lines post ?st2" .
  have rhs: "parse_lines (pre @ post) initial_state = parse_lines post ?st"
    using post by (intro parse_lines_append) (auto dest: table_name_line_no_lookahead)
  show ?thesis
  proof (cases post)
    case Nil
    have "save_previous ?st2 = ?st2"
      by (intro save_previous_nothing) (simp add: empty)
    with Nil lhs rhs show ?thesis by (simp add: parse_text_def save_last_eq)
  next
    case (Cons T2 post')
    with post have T2: "table_name_line T2" by simp
    have "save_previous ?st2 = ?st2"
      by (intro save_previous_nothing) (simp add: empty)
    then have "parse_lines (T2 # post') ?st2 = parse_lines (T2 # post') ?st"
      by (simp add: parse_lines_table[OF T2])
    with Cons lhs rhs show ?thesis by (simp add: parse_text_def)
  qed
qed

text \<open>
  C10 (as amended). For every input file, every value of the mapping that
  \<^verbatim>\<open>parse_result_file\<close> returns is a non-empty list of tuples; a file with no data line
  (table names, headers and blank lines only) gives the empty mapping; and a table-name
  line followed only by headers and blank lines, up to the next table-name line or the end
  of the file, adds nothing: the result is that of the file without these lines, provided
  an earlier line is a table name or no earlier line is a data line.
\<close>

theorem parse_text_values_nonempty:
  "parse_result_file (Lines lines) = Inr (parse_text lines)
   \<and> (\<forall>kv \<in> set (parse_text lines). snd kv \<noteq> [])
   \<and> ((\<forall>l \<in> set lines. \<not> is_data_line l) \<longrightarrow> parse_text lines = [])
   \<and> (table_name_line T \<and> (\<forall>h \<in> set hs. py_strip h = [] \<or> header_line h)
        \<and> (post = [] \<or> table_name_line (hd post))
        \<and> ((\<exists>l \<in> set pre. table_name_line l) \<or> (\<forall>l \<in> set pre. \<not> is_data_line l))
      \<longrightarrow> parse_text (pre @ T # hs @ post) = parse_text (pre @ post))"
proof (intro conjI impI)
  show "parse_result_file (Lines lines) = Inr (parse_text lines)"
    by (simp add: parse_result_file_def)
  show "\<forall>kv \<in> set (parse_text lines). snd kv \<noteq> []"
    using parse_text_values[of lines] by (simp add: values_nonempty_def)
next
  assume "\<forall>l \<in> set lines. \<not> is_data_line l"
  then show "parse_text lines = []" by (rule parse_text_no_data)
next
  assume "table_name_line T \<and> (\<forall>h \<in> set hs. py_strip h = [] \<or> header_line h)
        \<and> (post = [] \<or> table_name_line (hd post))
        \<and> ((\<exists>l \<in> set pre. table_name_line l) \<or> (\<forall>l \<in> set pre. \<not> is_data_line l))"
  then show "parse_text (pre @ T # hs @ post) = parse_text (pre @ post)"
    by (intro table_without_data) blast+
qed

theorem parse_text_values_nonempty_witness:
  "table_name_line ''t1'' \<and> table_name_line ''t2''
   \<and> header_line ''from_unixtime(PARTITION_DESCRIPTION) PARTITION_DESCRIPTION''
   \<and> parse_text [''t1'', ''from_unixtime(PARTITION_DESCRIPTION) PARTITION_DESCRIPTION'',
                 ''2025-10-09 00:00:00 1759964400 90 0'',
                 ''t2'', ''from_unixtime(PARTITION_DESCRIPTION) PARTITION_DESCRIPTION'']
       = [(''t1'', [[''2025-10-09 00:00:00'', ''1759964400'', ''90'', ''0'']])]
   \<and> snd (''t1'', [[''2025-10-09 00:00:00'', ''1759964400'', ''90'', ''0'']]) \<noteq> []
   \<and> parse_text [''t1'', ''from_unixtime(PARTITION_DESCRIPTION) PARTITION_DESCRIPTION'', ''t2''] = []"
proof -
  let ?H = "''from_unixtime(PARTITION_DESCRIPTION) PARTITION_DESCRIPTION''"
  let ?pre = "[''t1'', ?H, ''2025-10-09 00:00:00 1759964400 90 0'']"
  have t1: "table_name_line ''t1''" and t2: "table_name_line ''t2''"
    by (simp_all add: table_name_line_def match_date_def is_header_def string_eval)
  have h: "header_line ?H"
    by (simp add: header_line_def match_date_def is_header_def string_eval)
  have pre: "parse_text ?pre = [(''t1'', [[''2025-10-09 00:00:00'', ''1759964400'', ''90'', ''0'']])]"
    by (simp add: parse_eval string_eval)
  have "(\<exists>l \<in> set ?pre. table_name_line l) \<or> (\<forall>l \<in> set ?pre. \<not> is_data_line l)"
    using t1 by simp
  moreover have "\<forall>x \<in> set [?H]. py_strip x = [] \<or> header_line x"
    using h by simp
  ultimately have "parse_text (?pre @ ''t2'' # [?H] @ []) = parse_text (?pre @ [])"
    using parse_text_values_nonempty[of "?pre @ ''t2'' # [?H]" "''t2''" "[?H]" "[]" ?pre] t2
    by blast
  then have all: "parse_text [''t1'', ?H, ''2025-10-09 00:00:00 1759964400 90 0'', ''t2'', ?H]
      = [(''t1'', [[''2025-10-09 00:00:00'', ''1759964400'', ''90'', ''0'']])]"
    using pre by simp
  have "(''t1'', [[''2025-10-09 00:00:00'', ''1759964400'', ''90'', ''0'']])
      \<in> set (parse_text [''t1'', ?H, ''2025-10-09 00:00:00 1759964400 90 0'', ''t2'', ?H])"
    unfolding all by simp
  with parse_text_values_nonempty[of "[''t1'', ?H, ''2025-10-09 00:00:00 1759964400 90 0'', ''t2'', ?H]"]
  have ne: "snd (''t1'', [[''2025-10-09 00:00:00'', ''1759964400'', ''90'', ''0'']]) \<noteq> []"
    by blast
  have "\<forall>l \<in> set [''t1'', ?H, ''t2'']. \<not> is_data_line l"
    by (simp add: is_data_line_def match_date_def string_eval)
  with parse_text_values_nonempty[of "[''t1'', ?H, ''t2'']"]
  have nodata: "parse_text [''t1'', ?H, ''t2''] = []"
    by blast
  from all ne nodata t1 t2 h show ?thesis by simp
qed

text \<open>
  A data line before the first table name stays in the buffer, and the first table name
  then gets it as its rows, although no data line follows that table name.
\<close>

theorem table_name_line_inherits_rows:
  "is_data_line ''2025-10-09 00:00:00 1759964400 90 0\<newline>''
   \<and> table_name_line ''t1\<newline>''
   \<and> parse_text [''2025-10-09 00:00:00 1759964400 90 0\<newline>'', ''t1\<newline>'']
       = [(''t1'', [[''2025-10-09 00:00:00'', ''1759964400'', ''90'', ''0'']])]"
  by (simp add: is_data_line_def table_name_line_def parse_eval string_eval)

subsection \<open>A table name read more than once\<close>


















subsection \<open>The exit status\<close>























end
